theory Spec2Isabelle
  imports Main
begin

section \<open>JavaScript outcomes\<close>

text \<open>
  A call either returns or throws. An exception leaves every mutation made before it in
  place, so each operation that can throw returns its outcome together with the state
  it leaves behind. \<open>Rejected\<close> is the rejection of an awaited promise, which
  \<open>co.wrap\<close> throws into the generator at the \<open>yield\<close>.
\<close>

datatype jsError = TypeError | ReferenceError | Rejected string

datatype 'a outcome = Returned 'a | Threw jsError

section \<open>Tasks, markers and heap nodes\<close>

type_synonym taskId = nat
type_synonym priorityTag = string
type_synonym priorityOwner = string
type_synonym nodeRef = nat

text \<open>
  A \<open>WrappedTask\<close> keeps \<open>priorityTags\<close> and \<open>relPriority\<close> on its
  \<open>plannedTask\<close> and has no \<open>type\<close> of its own; a \<open>TaskMarker\<close> is flat and
  carries a (non-empty) \<open>type\<close>. \<open>priorityTags\<close> is an array; \<open>relPriority\<close>
  may be absent.
\<close>

datatype taskThing =
    WrappedTask taskId "priorityTag list" "int option"
  | TaskMarker taskId string "priorityTag list" "int option"

fun thingId :: "taskThing \<Rightarrow> taskId" where
  "thingId (WrappedTask i tags rel) = i"
| "thingId (TaskMarker i ty tags rel) = i"

text \<open>\<open>isTask = !taskThing.type\<close>\<close>

fun isTask :: "taskThing \<Rightarrow> bool" where
  "isTask (WrappedTask i tags rel) = True"
| "isTask (TaskMarker i ty tags rel) = False"

text \<open>\<open>isTask ? taskThing.plannedTask.priorityTags : taskThing.priorityTags\<close>\<close>

fun priorityTagsOf :: "taskThing \<Rightarrow> priorityTag list" where
  "priorityTagsOf (WrappedTask i tags rel) = tags"
| "priorityTagsOf (TaskMarker i ty tags rel) = tags"

text \<open>\<open>(isTask ? taskThing.plannedTask.relPriority : taskThing.relPriority) || 0\<close>\<close>

fun relPriorityOf :: "taskThing \<Rightarrow> int" where
  "relPriorityOf (WrappedTask i tags rel) = (case rel of None \<Rightarrow> 0 | Some r \<Rightarrow> r)"
| "relPriorityOf (TaskMarker i ty tags rel) = (case rel of None \<Rightarrow> 0 | Some r \<Rightarrow> r)"

record heapNode =
  key :: int
  payload :: taskThing

section \<open>The heap\<close>

text \<open>
  Modelled from the spec: the \<open>FibonacciHeap\<close> class (\<open>ext/fibonacci-heap\<close>) is not
  among the sources. The spec describes it as a min-structure (lower key = higher
  priority) whose extraction breaks ties by insertion order, with a decrease-key
  operation, deletion of a node, and an extraction that yields empty on an empty heap.
  The module of \<open>TaskPriorities\<close> names the class without importing it; the class
  is taken to be in scope.

  Heap nodes are objects that \<open>TaskPriorities\<close> keeps references to and writes into
  (\<open>priorityNode.value = taskThing\<close>), also after the heap has let go of them. So the
  heap is a store of node objects by reference, the next unused reference, and the
  references it currently holds, in insertion order. The field \<open>payload\<close> is the
  node's \<open>value\<close>.

  What the heap does when handed a node it no longer holds is not described; here
  \<open>heap_delete\<close> then leaves the contents as they are and \<open>decreaseKey\<close> only
  writes the key into the detached object.
\<close>

record fibonacciHeap =
  objects :: "nodeRef \<rightharpoonup> heapNode"
  fresh :: nodeRef
  members :: "nodeRef list"

text \<open>Modelled from the spec: \<open>new FibonacciHeap()\<close>, the heap that holds no node.\<close>

definition emptyHeap :: fibonacciHeap where
  "emptyHeap = \<lparr>objects = Map.empty, fresh = 0, members = []\<rparr>"

text \<open>Modelled from the spec: \<open>isEmpty()\<close>, whether the heap holds no node.\<close>

definition isEmpty :: "fibonacciHeap \<Rightarrow> bool" where
  "isEmpty h = (members h = [])"

text \<open>
  Modelled from the spec: \<open>insert(key, value)\<close> makes a new node, holds it after
  the nodes it already holds, and returns it.
\<close>

definition heap_insert :: "int \<Rightarrow> taskThing \<Rightarrow> fibonacciHeap \<Rightarrow> nodeRef \<times> fibonacciHeap" where
  "heap_insert k v h =
     (fresh h,
      \<lparr>objects = (objects h)(fresh h \<mapsto> \<lparr>key = k, payload = v\<rparr>),
       fresh = Suc (fresh h),
       members = members h @ [fresh h]\<rparr>)"

text \<open>
  Modelled from the spec: lower key first, ties broken by insertion order. So the
  minimum is the earliest-inserted node among those of least key.
\<close>

fun minimumOf :: "(nodeRef \<rightharpoonup> heapNode) \<Rightarrow> nodeRef list \<Rightarrow> nodeRef option" where
  "minimumOf st [] = None"
| "minimumOf st (n # ns) =
     (case st n of
        None \<Rightarrow> minimumOf st ns
      | Some nd \<Rightarrow>
          (case minimumOf st ns of
             None \<Rightarrow> Some n
           | Some m \<Rightarrow>
               (case st m of
                  None \<Rightarrow> Some n
                | Some md \<Rightarrow> if key md < key nd then Some m else Some n)))"

text \<open>
  Modelled from the spec: \<open>extractMinimum()\<close> removes the minimum from the heap and
  returns it; on an empty heap it yields nothing (\<open>undefined\<close>).
\<close>

definition extractMinimum :: "fibonacciHeap \<Rightarrow> nodeRef option \<times> fibonacciHeap" where
  "extractMinimum h =
     (case minimumOf (objects h) (members h) of
        None \<Rightarrow> (None, h)
      | Some n \<Rightarrow> (Some n, h\<lparr>members := removeAll n (members h)\<rparr>))"

text \<open>
  Modelled from the spec: \<open>decreaseKey(node, newKey)\<close> gives the node the smaller
  key in place.
\<close>

definition decreaseKey :: "nodeRef \<Rightarrow> int \<Rightarrow> fibonacciHeap \<Rightarrow> fibonacciHeap" where
  "decreaseKey n k h =
     (case objects h n of
        None \<Rightarrow> h
      | Some nd \<Rightarrow> h\<lparr>objects := (objects h)(n \<mapsto> nd\<lparr>key := k\<rparr>)\<rparr>)"

text \<open>Modelled from the spec: \<open>delete(node)\<close> takes the node out of the heap.\<close>

definition heap_delete :: "nodeRef \<Rightarrow> fibonacciHeap \<Rightarrow> fibonacciHeap" where
  "heap_delete n h = h\<lparr>members := removeAll n (members h)\<rparr>"

text \<open>The assignment \<open>node.value = v\<close> to a node object.\<close>

definition setValue :: "nodeRef \<Rightarrow> taskThing \<Rightarrow> fibonacciHeap \<Rightarrow> fibonacciHeap" where
  "setValue n v h =
     (case objects h n of
        None \<Rightarrow> h
      | Some nd \<Rightarrow> h\<lparr>objects := (objects h)(n \<mapsto> nd\<lparr>payload := v\<rparr>)\<rparr>)"

section \<open>TaskPriorities\<close>

text \<open>
  The fields of \<open>TaskPriorities\<close> (without their leading underscore). A JavaScript
  \<open>Map\<close> that is iterated is an association list in insertion order with distinct
  keys; one that is only looked up is a partial function.
\<close>

record taskPriorities =
  prioritizedTasks :: fibonacciHeap
  taskIdToHeapNode :: "taskId \<rightharpoonup> nodeRef"
  priorityTagToHeapNodes :: "priorityTag \<rightharpoonup> nodeRef list"
  priorityTagsByOwner :: "priorityOwner \<rightharpoonup> (priorityTag \<times> int) list"
  summedPriorityTags :: "priorityTag \<rightharpoonup> int"

definition newTaskPriorities :: taskPriorities where
  "newTaskPriorities =
     \<lparr>prioritizedTasks = emptyHeap,
      taskIdToHeapNode = Map.empty,
      priorityTagToHeapNodes = Map.empty,
      priorityTagsByOwner = Map.empty,
      summedPriorityTags = Map.empty\<rparr>"

definition hasTasksToExecute :: "taskPriorities \<Rightarrow> bool" where
  "hasTasksToExecute s = isEmpty (prioritizedTasks s)"

text \<open>\<open>summedPriorityTags.get(priorityTag) || 0\<close>\<close>

definition weightOf :: "(priorityTag \<rightharpoonup> int) \<Rightarrow> priorityTag \<Rightarrow> int" where
  "weightOf summed tag = (case summed tag of None \<Rightarrow> 0 | Some w \<Rightarrow> w)"

definition computePriorityForTags :: "(priorityTag \<rightharpoonup> int) \<Rightarrow> priorityTag list \<Rightarrow> int" where
  "computePriorityForTags summed priorityTags =
     foldl (\<lambda>priority priorityTag. priority + weightOf summed priorityTag) 0 priorityTags"

text \<open>
  One round of the loop of \<open>_cleanupTaskPriorityTracking\<close>. \<open>indexOf\<close> finds the
  first occurrence; called without a node (\<open>undefined\<close>) it finds none.
\<close>

definition cleanupTag ::
  "nodeRef option \<Rightarrow> (priorityTag \<rightharpoonup> nodeRef list) \<Rightarrow> priorityTag \<Rightarrow> (priorityTag \<rightharpoonup> nodeRef list)"
where
  "cleanupTag priorityNode m priorityTag =
     (case m priorityTag of
        None \<Rightarrow> m
      | Some nodes \<Rightarrow>
          (let nodes' = (case priorityNode of None \<Rightarrow> nodes | Some n \<Rightarrow> remove1 n nodes)
           in if nodes' = [] then m(priorityTag := None) else m(priorityTag \<mapsto> nodes')))"

definition cleanupTaskPriorityTracking ::
  "taskThing \<Rightarrow> nodeRef option \<Rightarrow> taskPriorities \<Rightarrow> taskPriorities"
where
  "cleanupTaskPriorityTracking taskThing priorityNode s =
     s\<lparr>priorityTagToHeapNodes :=
         foldl (cleanupTag priorityNode) (priorityTagToHeapNodes s) (priorityTagsOf taskThing)\<rparr>"

definition setupTag ::
  "nodeRef \<Rightarrow> (priorityTag \<rightharpoonup> nodeRef list) \<Rightarrow> priorityTag \<Rightarrow> (priorityTag \<rightharpoonup> nodeRef list)"
where
  "setupTag priorityNode m priorityTag =
     (case m priorityTag of
        Some nodes \<Rightarrow> m(priorityTag \<mapsto> nodes @ [priorityNode])
      | None \<Rightarrow> m(priorityTag \<mapsto> [priorityNode]))"

definition setupTaskPriorityTracking ::
  "taskThing \<Rightarrow> nodeRef \<Rightarrow> taskPriorities \<Rightarrow> taskPriorities"
where
  "setupTaskPriorityTracking taskThing priorityNode s =
     s\<lparr>priorityTagToHeapNodes :=
         foldl (setupTag priorityNode) (priorityTagToHeapNodes s) (priorityTagsOf taskThing)\<rparr>"

text \<open>
  \<open>_reprioritizeHeapNode\<close>. The node returned by \<open>insert\<close> in the second branch is
  not kept by the source. A reference always has an object (references only come from
  \<open>insert\<close>), so the first \<open>None\<close> is never taken.
\<close>

definition reprioritizeHeapNode :: "nodeRef \<Rightarrow> int \<Rightarrow> taskPriorities \<Rightarrow> taskPriorities" where
  "reprioritizeHeapNode node newKey s =
     (case objects (prioritizedTasks s) node of
        None \<Rightarrow> s
      | Some nd \<Rightarrow>
          if newKey < key nd then
            s\<lparr>prioritizedTasks := decreaseKey node newKey (prioritizedTasks s)\<rparr>
          else if newKey > key nd then
            (let taskThing = payload nd;
                 h = heap_delete node (prioritizedTasks s)
             in s\<lparr>prioritizedTasks := snd (heap_insert newKey taskThing h)\<rparr>)
          else s)"

text \<open>The key \<open>prioritizeTaskThing\<close> computes: \<open>nodeKey = -priority\<close>.\<close>

definition nodeKeyFor :: "taskPriorities \<Rightarrow> taskThing \<Rightarrow> int" where
  "nodeKeyFor s taskThing =
     (let priorityTags = priorityTagsOf taskThing;
          relPriority = relPriorityOf taskThing;
          priority = relPriority + computePriorityForTags (summedPriorityTags s) priorityTags
      in - priority)"

definition prioritizeTaskThing :: "taskThing \<Rightarrow> taskPriorities \<Rightarrow> taskPriorities" where
  "prioritizeTaskThing taskThing s =
     (let nodeKey = nodeKeyFor s taskThing
      in case taskIdToHeapNode s (thingId taskThing) of
           Some priorityNode \<Rightarrow>
             (let s1 = reprioritizeHeapNode priorityNode nodeKey s
              in case objects (prioritizedTasks s1) priorityNode of
                   None \<Rightarrow> s1
                 | Some nd \<Rightarrow>
                     (let oldTaskThing = payload nd;
                          s2 = cleanupTaskPriorityTracking oldTaskThing None s1;
                          s3 = s2\<lparr>prioritizedTasks :=
                                    setValue priorityNode taskThing (prioritizedTasks s2)\<rparr>
                      in setupTaskPriorityTracking taskThing priorityNode s3))
         | None \<Rightarrow>
             (let ins = heap_insert nodeKey taskThing (prioritizedTasks s);
                  priorityNode = fst ins;
                  s1 = s\<lparr>prioritizedTasks := snd ins,
                         taskIdToHeapNode := (taskIdToHeapNode s)(thingId taskThing \<mapsto> priorityNode)\<rparr>
              in setupTaskPriorityTracking taskThing priorityNode s1))"

text \<open>
  \<open>popNextAvailableTask\<close> reads \<open>priorityNode.value\<close> with no test of
  \<open>priorityNode\<close>: on an empty extraction that read throws \<open>TypeError\<close>.
\<close>

definition popNextAvailableTask :: "taskPriorities \<Rightarrow> taskThing outcome \<times> taskPriorities" where
  "popNextAvailableTask s =
     (let ex = extractMinimum (prioritizedTasks s);
          s1 = s\<lparr>prioritizedTasks := snd ex\<rparr>
      in case fst ex of
           None \<Rightarrow> (Threw TypeError, s1)
         | Some priorityNode \<Rightarrow>
             (case objects (prioritizedTasks s1) priorityNode of
                None \<Rightarrow> (Threw TypeError, s1)
              | Some nd \<Rightarrow>
                  (let taskThing = payload nd;
                       s2 = s1\<lparr>taskIdToHeapNode := (taskIdToHeapNode s1)(thingId taskThing := None)\<rparr>;
                       s3 = cleanupTaskPriorityTracking taskThing (Some priorityNode) s2
                   in (Returned taskThing, s3))))"

definition removeTaskThing :: "taskId \<Rightarrow> taskPriorities \<Rightarrow> taskPriorities" where
  "removeTaskThing taskIdV s =
     (case taskIdToHeapNode s taskIdV of
        None \<Rightarrow> s
      | Some priorityNode \<Rightarrow>
          (case objects (prioritizedTasks s) priorityNode of
             None \<Rightarrow> s
           | Some nd \<Rightarrow>
               (let taskThing = payload nd;
                    s1 = s\<lparr>prioritizedTasks := heap_delete priorityNode (prioritizedTasks s)\<rparr>;
                    s2 = s1\<lparr>taskIdToHeapNode := (taskIdToHeapNode s1)(taskIdV := None)\<rparr>
                in cleanupTaskPriorityTracking taskThing (Some priorityNode) s2)))"

subsection \<open>Priority boosts\<close>

text \<open>\<open>Map.prototype.set\<close> on an association list: a key keeps its place, a new key goes last.\<close>

fun mapSet :: "'k \<Rightarrow> 'v \<Rightarrow> ('k \<times> 'v) list \<Rightarrow> ('k \<times> 'v) list" where
  "mapSet k v [] = [(k, v)]"
| "mapSet k v (e # m) = (if fst e = k then (k, v) # m else e # mapSet k v m)"

text \<open>\<open>m.get(k) || 0\<close>\<close>

definition getOr0 :: "('k \<times> int) list \<Rightarrow> 'k \<Rightarrow> int" where
  "getOr0 m k = (case map_of m k of None \<Rightarrow> 0 | Some v \<Rightarrow> v)"

text \<open>
  What the two passes of \<open>setPriorityBoostTags\<close> update: the summed weights (the
  index's own \<open>Map\<close>) and the local \<open>perThingDeltas\<close>.
\<close>

record boostPass =
  sums :: "priorityTag \<rightharpoonup> int"
  perThingDeltas :: "(nodeRef \<times> int) list"

definition applyDelta ::
  "(priorityTag \<rightharpoonup> nodeRef list) \<Rightarrow> priorityTag \<Rightarrow> int \<Rightarrow> boostPass \<Rightarrow> boostPass"
where
  "applyDelta tagToNodes priorityTag delta acc =
     (let newSum = weightOf (sums acc) priorityTag + delta;
          sums' = (if newSum \<noteq> 0 then (sums acc)(priorityTag \<mapsto> newSum)
                   else (sums acc)(priorityTag := None));
          deltas' =
            (case tagToNodes priorityTag of
               None \<Rightarrow> perThingDeltas acc
             | Some nodes \<Rightarrow>
                 foldl (\<lambda>d node. mapSet node (getOr0 d node + delta) d) (perThingDeltas acc) nodes)
      in \<lparr>sums = sums', perThingDeltas = deltas'\<rparr>)"

text \<open>
  Phase 2. The loop is \<open>for (let [node, aggregateDelta] of perThingDeltas.values())\<close>:
  \<open>values()\<close> yields the numbers, and destructuring a number as an array throws
  \<open>TypeError\<close>, so the first round throws before its body (the call of
  \<open>_reprioritizeHeapNode\<close>) runs. With no recorded delta there is no round.
\<close>

definition applyPerThingDeltas ::
  "(nodeRef \<times> int) list \<Rightarrow> taskPriorities \<Rightarrow> unit outcome \<times> taskPriorities"
where
  "applyPerThingDeltas deltas s =
     (case map snd deltas of
        [] \<Rightarrow> (Returned (), s)
      | aggregateDelta # rest \<Rightarrow> (Threw TypeError, s))"

text \<open>
  \<open>setPriorityBoostTags\<close>, with the evaluation of \<open>m.items()\<close> on a \<open>Map\<close> as the
  parameter \<open>items\<close>.
\<close>

definition setPriorityBoostTagsUsing ::
  "((priorityTag \<times> int) list \<Rightarrow> jsError + (priorityTag \<times> int) list) \<Rightarrow>
   priorityOwner \<Rightarrow> (priorityTag \<times> int) list option \<Rightarrow> taskPriorities \<Rightarrow>
   unit outcome \<times> taskPriorities"
where
  "setPriorityBoostTagsUsing items owningId tagsWithValues s =
     (let existingValues = (case priorityTagsByOwner s owningId of None \<Rightarrow> [] | Some m \<Rightarrow> m);
          newValues = (case tagsWithValues of None \<Rightarrow> [] | Some m \<Rightarrow> m);
          tagToNodes = priorityTagToHeapNodes s;
          s1 = s\<lparr>priorityTagsByOwner :=
                   (case tagsWithValues of
                      Some m \<Rightarrow> (priorityTagsByOwner s)(owningId \<mapsto> m)
                    | None \<Rightarrow> (priorityTagsByOwner s)(owningId := None))\<rparr>
      in case items newValues of
           Inl e \<Rightarrow> (Threw e, s1)
         | Inr newEntries \<Rightarrow>
             (let acc1 =
                    foldl (\<lambda>acc (priorityTag, newPriority).
                             applyDelta tagToNodes priorityTag
                               (newPriority - getOr0 existingValues priorityTag) acc)
                      \<lparr>sums = summedPriorityTags s1, perThingDeltas = []\<rparr> newEntries;
                  s2 = s1\<lparr>summedPriorityTags := sums acc1\<rparr>
              in case items existingValues of
                   Inl e \<Rightarrow> (Threw e, s2)
                 | Inr oldEntries \<Rightarrow>
                     (let acc2 =
                            foldl (\<lambda>acc (priorityTag, oldPriority).
                                     case map_of newValues priorityTag of
                                       Some newPriority \<Rightarrow> acc
                                     | None \<Rightarrow> applyDelta tagToNodes priorityTag (- oldPriority) acc)
                              acc1 oldEntries;
                          s3 = s2\<lparr>summedPriorityTags := sums acc2\<rparr>
                      in applyPerThingDeltas (perThingDeltas acc2) s3)))"

text \<open>
  A \<open>Map\<close> has \<open>entries()\<close>, \<open>keys()\<close>, \<open>values()\<close> and \<open>forEach()\<close>; it has no
  method \<open>items\<close>. So \<open>newValues.items\<close> is \<open>undefined\<close> and calling it throws
  \<open>TypeError\<close>. \<open>mapEntries\<close> is what \<open>entries()\<close> yields.
\<close>

definition mapItems :: "('k \<times> 'v) list \<Rightarrow> jsError + ('k \<times> 'v) list" where
  "mapItems m = Inl TypeError"

definition mapEntries :: "('k \<times> 'v) list \<Rightarrow> jsError + ('k \<times> 'v) list" where
  "mapEntries m = Inr m"

definition setPriorityBoostTags ::
  "priorityOwner \<Rightarrow> (priorityTag \<times> int) list option \<Rightarrow> taskPriorities \<Rightarrow>
   unit outcome \<times> taskPriorities"
where
  "setPriorityBoostTags owningId tagsWithValues s =
     setPriorityBoostTagsUsing mapItems owningId tagsWithValues s"

section \<open>Task definitions\<close>

text \<open>
  A task's \<open>plan\<close> and \<open>execute\<close> are generators run by \<open>co.wrap\<close>: the
  statements run in order, each \<open>yield\<close> waits for a collaborator, and a rejection
  is thrown at the \<open>yield\<close>. Neither function has a \<open>try\<close>, so the first
  exception ends the run. A run is a function of the calls made so far (and of the
  persistent state, for a complex task) that returns an outcome and what it leaves.
\<close>

datatype jsValue =
    Undefined
  | Str string
  | Num int
  | Arr "jsValue list"

type_synonym jsObject = "string \<rightharpoonup> jsValue"

type_synonym umid = string
type_synonym flag = string

record flagChanges =
  addFlags :: "flag list option"
  removeFlags :: "flag list option"

record persistentState =
  umidChanges :: "umid \<rightharpoonup> flagChanges"

record taskMarker =
  umid :: umid
  accountId :: string

datatype finishArg =
    ComplexTaskState persistentState
  | TaskState jsObject
  | MutationsAndNewData "jsValue list" "jsValue list"

datatype ctxCall =
    AcquireAccount jsValue
  | BeginMutate umid
  | PimapStore jsValue "nat list" string "flag list"
  | DeriveMessageBlob jsValue
  | PimapUpload jsValue jsValue
  | FinishTask finishArg

fun isFinishTask :: "ctxCall \<Rightarrow> bool" where
  "isFinishTask (FinishTask a) = True"
| "isFinishTask c = False"

record 'p run =
  calls :: "ctxCall list"
  persistent :: 'p

type_synonym ('a, 'p) script = "'p run \<Rightarrow> 'a outcome \<times> 'p run"

definition ret :: "'a \<Rightarrow> ('a, 'p) script" where
  "ret x r = (Returned x, r)"

definition throw :: "jsError \<Rightarrow> ('a, 'p) script" where
  "throw e r = (Threw e, r)"

definition andThen :: "('a, 'p) script \<Rightarrow> ('a \<Rightarrow> ('b, 'p) script) \<Rightarrow> ('b, 'p) script" where
  "andThen m f r = (case m r of (Returned x, r') \<Rightarrow> f x r' | (Threw e, r') \<Rightarrow> (Threw e, r'))"

text \<open>
  \<open>yield\<close> of a collaborator's call: the call is made (and recorded), then its result
  is returned or its rejection thrown.
\<close>

definition await :: "ctxCall \<Rightarrow> jsError + 'a \<Rightarrow> ('a, 'p) script" where
  "await c res r =
     ((case res of Inl e \<Rightarrow> Threw e | Inr v \<Rightarrow> Returned v), r\<lparr>calls := calls r @ [c]\<rparr>)"

text \<open>A read of an identifier that the module does not declare.\<close>

definition global :: "(string \<rightharpoonup> jsValue) \<Rightarrow> string \<Rightarrow> (jsValue, 'p) script" where
  "global g name = (case g name of None \<Rightarrow> throw ReferenceError | Some v \<Rightarrow> ret v)"

text \<open>Reading the persistent state object, and a mutation of it in place.\<close>

definition getPersistent :: "('p, 'p) script" where
  "getPersistent r = (Returned (persistent r), r)"

definition modifyPersistent :: "('p \<Rightarrow> 'p) \<Rightarrow> (unit, 'p) script" where
  "modifyPersistent f r = (Returned (), r\<lparr>persistent := f (persistent r)\<rparr>)"

text \<open>\<open>obj.name\<close>: \<open>undefined\<close> when the object has no such field.\<close>

definition field :: "jsObject \<Rightarrow> string \<Rightarrow> jsValue" where
  "field obj name = (case obj name of None \<Rightarrow> Undefined | Some v \<Rightarrow> v)"

text \<open>
  The collaborators, as the task sees them: what each call answers. An account gives
  \<open>getFolderById\<close> (\<open>undefined\<close> is \<open>None\<close>; a folder info is shown by its
  \<open>path\<close>) and the \<open>pimap\<close> calls.
\<close>

record account =
  getFolderById :: "jsValue \<Rightarrow> jsValue option"
  pimapStore :: "jsValue \<Rightarrow> nat list \<Rightarrow> string \<Rightarrow> flag list \<Rightarrow> jsError + unit"
  pimapUpload :: "jsValue \<Rightarrow> jsValue \<Rightarrow> jsError + unit"

record taskContext =
  acquireAccount :: "jsValue \<Rightarrow> jsError + account"
  beginMutate :: "umid \<Rightarrow> jsError + (umid \<rightharpoonup> jsValue \<times> nat)"
  finishTask :: "finishArg \<Rightarrow> jsError + unit"

subsection \<open>store_flags\<close>

text \<open>
  \<open>changes.add && changes.add.length\<close>: the list when it is there and not empty.
\<close>

definition nonEmpty :: "flag list option \<Rightarrow> flag list option" where
  "nonEmpty l = (case l of None \<Rightarrow> None | Some fs \<Rightarrow> if fs = [] then None else Some fs)"

text \<open>
  \<open>execute\<close> of the complex task \<open>store_flags\<close>. \<open>imapDataName\<close> comes from the
  mix-in. \<open>fromDb.umidLocations.get(marker.umid)\<close> is destructured as a pair and
  \<open>changes.add\<close> is read from \<open>changes\<close>: either throws \<open>TypeError\<close> when the
  map has no entry.
\<close>

definition store_flags_execute ::
  "taskContext \<Rightarrow> string \<Rightarrow> taskMarker \<Rightarrow> (unit, persistentState) script"
where
  "store_flags_execute ctx imapDataName marker =
     andThen getPersistent (\<lambda>persistentState.
     (let changes = umidChanges persistentState (umid marker) in
     andThen (await (AcquireAccount (Str (accountId marker)))
                (acquireAccount ctx (Str (accountId marker)))) (\<lambda>account.
     andThen (await (BeginMutate (umid marker)) (beginMutate ctx (umid marker))) (\<lambda>umidLocations.
     andThen (case umidLocations (umid marker) of
                None \<Rightarrow> throw TypeError
              | Some loc \<Rightarrow> ret loc) (\<lambda>(folderId, uid).
     (let folderInfo = (case getFolderById account folderId of None \<Rightarrow> Undefined | Some f \<Rightarrow> f) in
     andThen (case changes of None \<Rightarrow> throw TypeError | Some ch \<Rightarrow> ret ch) (\<lambda>ch.
     andThen (case nonEmpty (addFlags ch) of
                None \<Rightarrow> ret ()
              | Some fs \<Rightarrow>
                  await (PimapStore folderInfo [uid] (''+'' @ imapDataName) fs)
                    (pimapStore account folderInfo [uid] (''+'' @ imapDataName) fs)) (\<lambda>_.
     andThen (case nonEmpty (removeFlags ch) of
                None \<Rightarrow> ret ()
              | Some fs \<Rightarrow>
                  await (PimapStore folderInfo [uid] (''-'' @ imapDataName) fs)
                    (pimapStore account folderInfo [uid] (''-'' @ imapDataName) fs)) (\<lambda>_.
     andThen (modifyPersistent (\<lambda>p. p\<lparr>umidChanges := (umidChanges p)(umid marker := None)\<rparr>)) (\<lambda>_.
     andThen getPersistent (\<lambda>committed.
       await (FinishTask (ComplexTaskState committed))
         (finishTask ctx (ComplexTaskState committed)))))))))))))"

subsection \<open>append_message\<close>

text \<open>
  Modelled from the spec: \<open>shallowClone\<close> (\<open>util\<close>) is not among the sources; it
  is a copy with the same fields, and the argument is left as it is.
\<close>

definition shallowClone :: "jsObject \<Rightarrow> jsObject" where
  "shallowClone obj = obj"

definition append_message_plan :: "taskContext \<Rightarrow> jsObject \<Rightarrow> (unit, unit) script" where
  "append_message_plan ctx rawTask =
     (let plannedTask = shallowClone rawTask;
          plannedTask = plannedTask(''resources'' \<mapsto> Arr []);
          plannedTask = plannedTask(''exclusiveResources'' \<mapsto> Arr []);
          plannedTask = plannedTask(''priorityTags'' \<mapsto> Arr [])
      in await (FinishTask (TaskState plannedTask)) (finishTask ctx (TaskState plannedTask)))"

text \<open>
  \<open>execute\<close> of \<open>append_message\<close>. \<open>deriveMessageBlob\<close> is the composer's
  answer for the message info and \<open>readAsBinaryString\<close> the platform's
  \<open>FileReaderSync\<close>. The identifiers \<open>blob\<close>, \<open>modifiedConversations\<close>,
  \<open>headerIdWrites\<close>, \<open>messageId\<close>, \<open>newConversations\<close>, \<open>messageInfo\<close> and
  \<open>extraTasks\<close> are declared nowhere in the module: they are read from the global
  scope \<open>g\<close>, in the order the object literals evaluate them. \<open>folderInfo.path\<close>
  throws \<open>TypeError\<close> when \<open>getFolderById\<close> gave \<open>undefined\<close>.
\<close>

definition append_message_execute ::
  "taskContext \<Rightarrow> (jsValue \<Rightarrow> jsError + jsValue) \<Rightarrow> (jsValue \<Rightarrow> jsError + jsValue) \<Rightarrow>
   (string \<rightharpoonup> jsValue) \<Rightarrow> jsObject \<Rightarrow> (unit, unit) script"
where
  "append_message_execute ctx deriveMessageBlob readAsBinaryString g req =
     andThen (await (AcquireAccount (field req ''accountId''))
                (acquireAccount ctx (field req ''accountId''))) (\<lambda>account.
     (let folderInfo = getFolderById account (field req ''folderId'') in
     andThen (await (DeriveMessageBlob (field req ''messageInfo''))
                (deriveMessageBlob (field req ''messageInfo''))) (\<lambda>composedBlob.
     andThen (case readAsBinaryString composedBlob of
                Inl e \<Rightarrow> throw e
              | Inr str \<Rightarrow> ret str) (\<lambda>composedString.
     andThen (global g ''blob'') (\<lambda>messageText.
     andThen (case folderInfo of None \<Rightarrow> throw TypeError | Some path \<Rightarrow> ret path) (\<lambda>path.
     andThen (await (PimapUpload path composedString)
                (pimapUpload account path composedString)) (\<lambda>_.
     andThen (global g ''modifiedConversations'') (\<lambda>modifiedConversations.
     andThen (global g ''headerIdWrites'') (\<lambda>headerIdWrites.
     andThen (global g ''messageId'') (\<lambda>messageId.
     andThen (global g ''newConversations'') (\<lambda>newConversations.
     andThen (global g ''messageInfo'') (\<lambda>messageInfo.
     andThen (global g ''extraTasks'') (\<lambda>extraTasks.
       (let arg = MutationsAndNewData
                    [modifiedConversations, headerIdWrites, field req ''umid'', messageId]
                    [newConversations, messageInfo, extraTasks]
        in await (FinishTask arg) (finishTask ctx arg)))))))))))))))"

subsection \<open>Readiness\<close>

text \<open>
  Modelled from the spec: the Resource Gate is not among the sources.
  \<open>tryAcquireAll(resourceIds, claimantId)\<close> acquires all the listed resources for
  the claimant iff all are free, and none otherwise; a unit is ready when it succeeds.
\<close>

definition tryAcquireAll ::
  "jsValue list \<Rightarrow> string \<Rightarrow> (jsValue \<rightharpoonup> string) \<Rightarrow> bool \<times> (jsValue \<rightharpoonup> string)"
where
  "tryAcquireAll resourceIds claimantId held =
     (if list_all (\<lambda>res. held res = None) resourceIds
      then (True, foldl (\<lambda>h res. h(res \<mapsto> claimantId)) held resourceIds)
      else (False, held))"

text \<open>The resources a planned task declares.\<close>

definition resourcesOf :: "jsObject \<Rightarrow> jsValue list" where
  "resourcesOf plannedTask =
     (case plannedTask ''resources'' of Some (Arr rs) \<Rightarrow> rs | _ \<Rightarrow> [])"

section \<open>Call logs\<close>

text \<open>
  What a run adds to the log of calls: nothing that is a \<open>finishTask\<close>, or, at most,
  one \<open>finishTask\<close> as the very last call, and none when it threw before.
\<close>

definition finishFree :: "ctxCall list \<Rightarrow> bool" where
  "finishFree cs = (filter isFinishTask cs = [])"

definition makesNoFinish :: "('a, 'p) script \<Rightarrow> bool" where
  "makesNoFinish m = (\<forall>r. \<exists>cs. finishFree cs \<and> calls (snd (m r)) = calls r @ cs)"

definition finishesLast :: "('a, 'p) script \<Rightarrow> bool" where
  "finishesLast m =
     (\<forall>r. \<exists>cs. finishFree cs \<and>
        ((\<exists>a. calls (snd (m r)) = calls r @ cs @ [FinishTask a])
         \<or> ((\<exists>e. fst (m r) = Threw e) \<and> calls (snd (m r)) = calls r @ cs)))"

section \<open>Example data\<close>

definition taskA :: taskThing where "taskA = WrappedTask 1 [] (Some 5)"
definition taskB :: taskThing where "taskB = WrappedTask 2 [] (Some 3)"
definition taskA1 :: taskThing where "taskA1 = WrappedTask 1 [] (Some 1)"
definition taskA7 :: taskThing where "taskA7 = WrappedTask 1 [] (Some 7)"

definition okAccount :: account where
  "okAccount =
     \<lparr>getFolderById = (\<lambda>folderId. Some (Str ''INBOX'')),
      pimapStore = (\<lambda>folderInfo uids name flags. Inr ()),
      pimapUpload = (\<lambda>path text. Inr ())\<rparr>"

definition okContext :: taskContext where
  "okContext =
     \<lparr>acquireAccount = (\<lambda>a. Inr okAccount),
      beginMutate = (\<lambda>u. Inr [u \<mapsto> (Str ''folder1'', 7)]),
      finishTask = (\<lambda>a. Inr ())\<rparr>"

definition offlineContext :: taskContext where
  "offlineContext = okContext\<lparr>acquireAccount := (\<lambda>a. Inl (Rejected ''offline''))\<rparr>"

definition pendingSeen :: persistentState where
  "pendingSeen =
     \<lparr>umidChanges =
        [''umid1'' \<mapsto> \<lparr>addFlags = Some [''Seen''], removeFlags = None\<rparr>,
         ''umid2'' \<mapsto> \<lparr>addFlags = None, removeFlags = Some [''Flagged'']\<rparr>]\<rparr>"

definition seenMarker :: taskMarker where
  "seenMarker = \<lparr>umid = ''umid1'', accountId = ''acct1''\<rparr>"

definition draftTask :: jsObject where
  "draftTask =
     [''type'' \<mapsto> Str ''append_message'', ''accountId'' \<mapsto> Str ''acct1'',
      ''folderId'' \<mapsto> Str ''sent'', ''priorityTags'' \<mapsto> Arr [Str ''view:sent'']]"

definition allDeclared :: "string \<rightharpoonup> jsValue" where
  "allDeclared name = Some (Str name)"

section \<open>Runs of the index\<close>

text \<open>
  The operations on the heap side of the index, and the one kind of call after which
  the id-to-node map and the heap part ways: a \<open>prioritizeTaskThing\<close> for an id that
  has a node, with a key larger than the node's (a lower priority). A run is steady when
  it has no such call.
\<close>

datatype indexOp = Prioritize taskThing | Pop | Remove taskId

fun applyOp :: "indexOp \<Rightarrow> taskPriorities \<Rightarrow> taskPriorities" where
  "applyOp (Prioritize t) s = prioritizeTaskThing t s"
| "applyOp Pop s = snd (popNextAvailableTask s)"
| "applyOp (Remove i) s = removeTaskThing i s"

fun raisesKey :: "taskPriorities \<Rightarrow> indexOp \<Rightarrow> bool" where
  "raisesKey s (Prioritize t) =
     (case taskIdToHeapNode s (thingId t) of
        None \<Rightarrow> False
      | Some n \<Rightarrow>
          (case objects (prioritizedTasks s) n of
             None \<Rightarrow> False
           | Some nd \<Rightarrow> key nd < nodeKeyFor s t))"
| "raisesKey s Pop = False"
| "raisesKey s (Remove i) = False"

fun steady :: "indexOp list \<Rightarrow> taskPriorities \<Rightarrow> bool" where
  "steady [] s = True"
| "steady (op # ops) s = (\<not> raisesKey s op \<and> steady ops (applyOp op s))"

text \<open>
  The id-to-node map and the heap agree: the heap holds each node once, every node it
  holds has an object, the map sends an id to a node the heap holds and whose value
  has that id, and the id of every held node's value is mapped to that node.
\<close>

definition indexOk :: "taskPriorities \<Rightarrow> bool" where
  "indexOk s =
     (let h = prioritizedTasks s
      in distinct (members h)
         \<and> (\<forall>n \<in> set (members h). n < fresh h \<and> objects h n \<noteq> None)
         \<and> (\<forall>i n. taskIdToHeapNode s i = Some n \<longrightarrow>
                n \<in> set (members h) \<and> (\<exists>nd. objects h n = Some nd \<and> thingId (payload nd) = i))
         \<and> (\<forall>n \<in> set (members h). \<forall>nd. objects h n = Some nd \<longrightarrow>
                taskIdToHeapNode s (thingId (payload nd)) = Some n))"

text \<open>
  The effective priority of a task or marker in an index, and the heap keys being its
  negation for every node's own value.
\<close>

definition effectivePriority :: "taskPriorities \<Rightarrow> taskThing \<Rightarrow> int" where
  "effectivePriority s t =
     relPriorityOf t + sum_list (map (weightOf (summedPriorityTags s)) (priorityTagsOf t))"

definition keysOk :: "taskPriorities \<Rightarrow> bool" where
  "keysOk s =
     (\<forall>n \<in> set (members (prioritizedTasks s)). \<forall>nd.
        objects (prioritizedTasks s) n = Some nd \<longrightarrow> key nd = - effectivePriority s (payload nd))"

section \<open>Boost accounting\<close>

text \<open>
  The boost an owner currently asserts for a tag, the total over the owners, what the
  summed-weights map stores for a total (nothing for zero), and the sums being exact.
\<close>

definition ownerBoost :: "taskPriorities \<Rightarrow> priorityOwner \<Rightarrow> priorityTag \<Rightarrow> int" where
  "ownerBoost s owner tag =
     (case priorityTagsByOwner s owner of None \<Rightarrow> 0 | Some m \<Rightarrow> getOr0 m tag)"

definition boostTotal :: "taskPriorities \<Rightarrow> priorityTag \<Rightarrow> int" where
  "boostTotal s tag = (\<Sum>owner \<in> dom (priorityTagsByOwner s). ownerBoost s owner tag)"

definition storedSum :: "int \<Rightarrow> int option" where
  "storedSum x = (if x = 0 then None else Some x)"

definition sumsExact :: "taskPriorities \<Rightarrow> bool" where
  "sumsExact s =
     (finite (dom (priorityTagsByOwner s))
      \<and> (\<forall>owner m. priorityTagsByOwner s owner = Some m \<longrightarrow> distinct (map fst m))
      \<and> (\<forall>tag. summedPriorityTags s tag = storedSum (boostTotal s tag)))"

text \<open>
  A call whose \<open>Map\<close> argument has distinct keys (as every \<open>Map\<close> has), and a
  sequence of calls.
\<close>

fun properMap :: "priorityOwner \<times> (priorityTag \<times> int) list option \<Rightarrow> bool" where
  "properMap (owner, None) = True"
| "properMap (owner, Some m) = distinct (map fst m)"

definition boostRun ::
  "((priorityTag \<times> int) list \<Rightarrow> jsError + (priorityTag \<times> int) list) \<Rightarrow>
   (priorityOwner \<times> (priorityTag \<times> int) list option) list \<Rightarrow> taskPriorities \<Rightarrow> taskPriorities"
where
  "boostRun items cs s =
     foldl (\<lambda>s (owningId, tagsWithValues).
              snd (setPriorityBoostTagsUsing items owningId tagsWithValues s)) s cs"


section \<open>Properties of TaskPriorities\<close>

text \<open>
  C4. The claim: \<open>popNextAvailableTask\<close> on an empty index returns an empty result
  and raises no error. On the code, a fresh index throws \<open>TypeError\<close>: the empty
  extraction is dereferenced. The index is left as it was.
\<close>

theorem popNextAvailableTask_empty_throws:
  "popNextAvailableTask newTaskPriorities = (Threw TypeError, newTaskPriorities)"
  by (simp add: popNextAvailableTask_def newTaskPriorities_def extractMinimum_def emptyHeap_def)

text \<open>
  C10. \<open>hasTasksToExecute\<close> returns what the heap's \<open>isEmpty\<close> returns: it is
  true exactly when the index holds no node, so it is true for a fresh index and false
  once a task has been prioritized into it.
\<close>

theorem hasTasksToExecute_is_isEmpty:
  "hasTasksToExecute s = isEmpty (prioritizedTasks s)
   \<and> (hasTasksToExecute s \<longleftrightarrow> set (members (prioritizedTasks s)) = {})
   \<and> hasTasksToExecute newTaskPriorities
   \<and> \<not> hasTasksToExecute (prioritizeTaskThing t newTaskPriorities)"
  by (simp add: hasTasksToExecute_def isEmpty_def newTaskPriorities_def emptyHeap_def
      prioritizeTaskThing_def heap_insert_def setupTaskPriorityTracking_def Let_def)

lemma foldl_add_weight:
  "foldl (\<lambda>p tag. p + weightOf summed tag) a tags = a + sum_list (map (weightOf summed) tags)"
  by (induction tags arbitrary: a) simp_all

lemma computePriorityForTags_sum:
  "computePriorityForTags summed tags = sum_list (map (weightOf summed) tags)"
  by (simp add: computePriorityForTags_def foldl_add_weight)

lemma nodeKeyFor_eq:
  "nodeKeyFor s t =
     - (relPriorityOf t + sum_list (map (weightOf (summedPriorityTags s)) (priorityTagsOf t)))"
  by (simp add: nodeKeyFor_def computePriorityForTags_sum)

lemma prioritizedTasks_setup [simp]:
  "prioritizedTasks (setupTaskPriorityTracking t n s) = prioritizedTasks s"
  by (simp add: setupTaskPriorityTracking_def)

lemma prioritizedTasks_cleanup [simp]:
  "prioritizedTasks (cleanupTaskPriorityTracking t n s) = prioritizedTasks s"
  by (simp add: cleanupTaskPriorityTracking_def)

lemma taskIdToHeapNode_setup [simp]:
  "taskIdToHeapNode (setupTaskPriorityTracking t n s) = taskIdToHeapNode s"
  by (simp add: setupTaskPriorityTracking_def)

lemma taskIdToHeapNode_cleanup [simp]:
  "taskIdToHeapNode (cleanupTaskPriorityTracking t n s) = taskIdToHeapNode s"
  by (simp add: cleanupTaskPriorityTracking_def)

text \<open>
  The key that \<open>prioritizeTaskThing\<close> computes, written out: the negation of
  (\<open>relPriority\<close>, 0 when absent, plus the sum over the task's or marker's own
  priority tags of the summed weight of the tag, 0 for a tag with no recorded weight).
\<close>

lemma nodeKeyFor_formula:
  "nodeKeyFor s t =
     (case t of
        WrappedTask i tags rel \<Rightarrow>
          - ((case rel of None \<Rightarrow> 0 | Some r \<Rightarrow> r)
             + sum_list (map (\<lambda>tag. case summedPriorityTags s tag of None \<Rightarrow> 0 | Some w \<Rightarrow> w) tags))
      | TaskMarker i ty tags rel \<Rightarrow>
          - ((case rel of None \<Rightarrow> 0 | Some r \<Rightarrow> r)
             + sum_list (map (\<lambda>tag. case summedPriorityTags s tag of None \<Rightarrow> 0 | Some w \<Rightarrow> w) tags)))"
proof -
  have w: "(\<lambda>tag. case summedPriorityTags s tag of None \<Rightarrow> 0 | Some w \<Rightarrow> w)
           = weightOf (summedPriorityTags s)"
    by (simp add: weightOf_def fun_eq_iff)
  show ?thesis
    unfolding w by (cases t) (simp_all add: nodeKeyFor_eq)
qed

text \<open>
  For a new id, the node the id is mapped to is held by the heap, holds the task or
  marker, and has that key.
\<close>

lemma prioritizeTaskThing_key_new:
  assumes "taskIdToHeapNode s (thingId t) = None"
  shows "\<exists>n. taskIdToHeapNode (prioritizeTaskThing t s) (thingId t) = Some n
             \<and> n \<in> set (members (prioritizedTasks (prioritizeTaskThing t s)))
             \<and> objects (prioritizedTasks (prioritizeTaskThing t s)) n
                 = Some \<lparr>key = nodeKeyFor s t, payload = t\<rparr>"
  using assms
  by (simp add: prioritizeTaskThing_def Let_def heap_insert_def)

text \<open>
  For an id whose node is held by the heap and whose key does not grow, the same holds
  of that node.
\<close>

lemma prioritizeTaskThing_key_kept:
  assumes "taskIdToHeapNode s (thingId t) = Some n"
      and "n \<in> set (members (prioritizedTasks s))"
      and "objects (prioritizedTasks s) n = Some nd"
      and "nodeKeyFor s t \<le> key nd"
  shows "taskIdToHeapNode (prioritizeTaskThing t s) (thingId t) = Some n
         \<and> n \<in> set (members (prioritizedTasks (prioritizeTaskThing t s)))
         \<and> objects (prioritizedTasks (prioritizeTaskThing t s)) n
             = Some \<lparr>key = nodeKeyFor s t, payload = t\<rparr>"
  using assms
  by (cases "nodeKeyFor s t < key nd")
     (auto simp: prioritizeTaskThing_def Let_def reprioritizeHeapNode_def decreaseKey_def
        setValue_def)

text \<open>
  C3. The claim: for every task or marker passed to \<open>prioritizeTaskThing\<close>, the key
  of its node is the negation of its effective priority. On the code: prioritize
  \<open>taskA\<close> (id 1, priority 5), then \<open>taskA1\<close> (id 1, priority 1). The key computed
  for \<open>taskA1\<close> is \<open>-1\<close>, but the node that holds \<open>taskA1\<close>, the one id 1 is
  mapped to, is the deleted node 0 and still has key \<open>-5\<close>; the key \<open>-1\<close> went to
  the new node 1, which carries \<open>taskA\<close>, whose own key would be \<open>-5\<close>.
\<close>

theorem reprioritized_task_keeps_old_key:
  "(let s1 = prioritizeTaskThing taskA newTaskPriorities;
        s2 = prioritizeTaskThing taskA1 s1;
        h2 = prioritizedTasks s2
    in nodeKeyFor s1 taskA1 = - 1
       \<and> - effectivePriority s2 taskA1 = - 1
       \<and> taskIdToHeapNode s2 (thingId taskA1) = Some 0
       \<and> objects h2 0 = Some \<lparr>key = - 5, payload = taskA1\<rparr>
       \<and> 0 \<notin> set (members h2)
       \<and> members h2 = [1]
       \<and> objects h2 1 = Some \<lparr>key = - 1, payload = taskA\<rparr>
       \<and> - effectivePriority s2 taskA = - 5)"
  by code_simp

text \<open>
  C6. Re-weighting a node (one that has an object and is not the next unused
  reference) to a strictly smaller key decreases its key in place: the heap holds the
  same nodes in the same order, no node is created, the node keeps its value and no
  other node changes. To a strictly larger key: the node leaves the heap and one new
  node with the new key and the same value is inserted (after the nodes that stay);
  no other node changes. To an equal key: the index is unchanged. In every case the
  maps of the index other than the heap are untouched.
\<close>

theorem reprioritizeHeapNode_cases:
  assumes "objects (prioritizedTasks s) node = Some nd"
      and "node \<noteq> fresh (prioritizedTasks s)"
  shows "(let h = prioritizedTasks s; s' = reprioritizeHeapNode node newKey s; h' = prioritizedTasks s'
          in taskIdToHeapNode s' = taskIdToHeapNode s
             \<and> priorityTagToHeapNodes s' = priorityTagToHeapNodes s
             \<and> priorityTagsByOwner s' = priorityTagsByOwner s
             \<and> summedPriorityTags s' = summedPriorityTags s
             \<and> (newKey < key nd \<longrightarrow>
                    members h' = members h \<and> fresh h' = fresh h
                    \<and> objects h' node = Some \<lparr>key = newKey, payload = payload nd\<rparr>
                    \<and> (\<forall>m. m \<noteq> node \<longrightarrow> objects h' m = objects h m))
             \<and> (newKey > key nd \<longrightarrow>
                    node \<notin> set (members h')
                    \<and> members h' = removeAll node (members h) @ [fresh h]
                    \<and> fresh h' = Suc (fresh h)
                    \<and> objects h' (fresh h) = Some \<lparr>key = newKey, payload = payload nd\<rparr>
                    \<and> (\<forall>m. m \<noteq> fresh h \<longrightarrow> objects h' m = objects h m))
             \<and> (newKey = key nd \<longrightarrow> s' = s))"
  using assms
  by (auto simp: reprioritizeHeapNode_def Let_def decreaseKey_def heap_delete_def heap_insert_def)

text \<open>
  The three cases on the index that holds only \<open>taskA\<close> (key \<open>-5\<close>, node 0):
  to \<open>-1\<close> (larger), to \<open>-7\<close> (smaller) and to \<open>-5\<close> (equal).
\<close>

theorem reprioritizeHeapNode_cases_witness:
  "(let s = prioritizeTaskThing taskA newTaskPriorities;
        h' = prioritizedTasks (reprioritizeHeapNode 0 (- 1) s);
        h'' = prioritizedTasks (reprioritizeHeapNode 0 (- 7) s)
    in objects (prioritizedTasks s) 0 = Some \<lparr>key = - 5, payload = taskA\<rparr>
       \<and> (0::nat) \<noteq> fresh (prioritizedTasks s)
       \<and> members h' = [1] \<and> objects h' 1 = Some \<lparr>key = - 1, payload = taskA\<rparr>
       \<and> members h'' = [0] \<and> objects h'' 0 = Some \<lparr>key = - 7, payload = taskA\<rparr>
       \<and> reprioritizeHeapNode 0 (- 5) s = s)"
proof -
  let ?s = "prioritizeTaskThing taskA newTaskPriorities"
  have o: "objects (prioritizedTasks ?s) 0 = Some \<lparr>key = - 5, payload = taskA\<rparr>"
    by code_simp
  have f: "(0::nat) \<noteq> fresh (prioritizedTasks ?s)"
    by code_simp
  have m: "members (prioritizedTasks ?s) = [0]" "fresh (prioritizedTasks ?s) = 1"
    by code_simp+
  show ?thesis
    using reprioritizeHeapNode_cases [OF o f, of "- 1"]
      reprioritizeHeapNode_cases [OF o f, of "- 7"]
      reprioritizeHeapNode_cases [OF o f, of "- 5"] o f m
    by (simp add: Let_def)
qed

subsection \<open>The heap's minimum\<close>

text \<open>
  \<open>minimumOf\<close> gives a node of the list that has an object and a least key, and
  every node before it in insertion order has a strictly larger key.
\<close>

lemma minimumOf_mem:
  "minimumOf st ns = Some m \<Longrightarrow> m \<in> set ns \<and> st m \<noteq> None"
  by (induction ns arbitrary: m) (auto split: option.splits if_splits)

lemma minimumOf_None:
  "minimumOf st ns = None \<Longrightarrow> n \<in> set ns \<Longrightarrow> st n = None"
  by (induction ns) (auto split: option.splits if_splits)

lemma minimumOf_least:
  "minimumOf st ns = Some m \<Longrightarrow> st m = Some md \<Longrightarrow> n \<in> set ns \<Longrightarrow> st n = Some nd \<Longrightarrow>
   key md \<le> key nd"
proof (induction ns arbitrary: m md)
  case Nil
  then show ?case by simp
next
  case (Cons a ns)
  show ?case
  proof (cases "st a")
    case None
    with Cons show ?thesis by (auto split: option.splits)
  next
    case (Some ad)
    show ?thesis
    proof (cases "minimumOf st ns")
      case None
      with Some Cons.prems minimumOf_None[OF None] show ?thesis by auto
    next
      case (Some r)
      from minimumOf_mem[OF Some] obtain rd where rd: "st r = Some rd" by auto
      note le = Cons.IH[OF Some rd]
      show ?thesis
        using Cons.prems \<open>st a = Some ad\<close> Some rd le
        by (auto split: if_splits)
    qed
  qed
qed

lemma minimumOf_first:
  "minimumOf st ns = Some m \<Longrightarrow> st m = Some md \<Longrightarrow>
   \<exists>pre post. ns = pre @ m # post \<and> (\<forall>n \<in> set pre. \<forall>nd. st n = Some nd \<longrightarrow> key md < key nd)"
proof (induction ns arbitrary: m md)
  case Nil
  then show ?case by simp
next
  case (Cons a ns)
  show ?case
  proof (cases "st a")
    case None
    with Cons.prems have "minimumOf st ns = Some m" by simp
    from Cons.IH[OF this Cons.prems(2)] obtain pre post where
      p: "ns = pre @ m # post" "\<forall>n \<in> set pre. \<forall>nd. st n = Some nd \<longrightarrow> key md < key nd" by blast
    show ?thesis
      using p None by (intro exI[of _ "a # pre"] exI[of _ post]) auto
  next
    case (Some ad)
    show ?thesis
    proof (cases "m = a")
      case True
      then show ?thesis by (intro exI[of _ "[]"] exI[of _ ns]) simp
    next
      case False
      with Cons.prems Some obtain r where r: "minimumOf st ns = Some r"
        by (auto split: option.splits if_splits)
      from minimumOf_mem[OF r] obtain rd where rd: "st r = Some rd" by auto
      from False Cons.prems Some r rd have mr: "m = r" and lt: "key rd < key ad"
        by (auto split: if_splits)
      from Cons.IH[OF r rd] obtain pre post where
        p: "ns = pre @ r # post" "\<forall>n \<in> set pre. \<forall>nd. st n = Some nd \<longrightarrow> key rd < key nd" by blast
      have "md = rd" using Cons.prems(2) rd mr by simp
      then show ?thesis
        using p mr lt Some by (intro exI[of _ "a # pre"] exI[of _ post]) auto
    qed
  qed
qed

subsection \<open>One heap node per id\<close>

text \<open>
  \<open>indexOk\<close> holds of a fresh index and is kept by inserting a new id, by
  re-prioritizing an id to a key that is not larger, by a pop and by a removal: so it
  holds after every steady run.
\<close>

lemma indexOk_setup [simp]:
  "indexOk (setupTaskPriorityTracking t n s) = indexOk s"
  by (simp add: indexOk_def setupTaskPriorityTracking_def)

lemma indexOk_cleanup [simp]:
  "indexOk (cleanupTaskPriorityTracking t n s) = indexOk s"
  by (simp add: indexOk_def cleanupTaskPriorityTracking_def)

lemma indexOk_new: "indexOk newTaskPriorities"
  by (simp add: indexOk_def newTaskPriorities_def emptyHeap_def)

lemma indexOk_insert:
  assumes ok: "indexOk s" and new: "taskIdToHeapNode s (thingId t) = None"
  shows "indexOk (s\<lparr>prioritizedTasks := snd (heap_insert k t (prioritizedTasks s)),
                   taskIdToHeapNode := (taskIdToHeapNode s)(thingId t \<mapsto> fst (heap_insert k t (prioritizedTasks s)))\<rparr>)"
proof -
  let ?h = "prioritizedTasks s"
  have d: "distinct (members ?h)"
    and b: "\<And>n. n \<in> set (members ?h) \<Longrightarrow> n < fresh ?h \<and> objects ?h n \<noteq> None"
    and m: "\<And>i n. taskIdToHeapNode s i = Some n \<Longrightarrow>
              n \<in> set (members ?h) \<and> (\<exists>nd. objects ?h n = Some nd \<and> thingId (payload nd) = i)"
    and r: "\<And>n nd. n \<in> set (members ?h) \<Longrightarrow> objects ?h n = Some nd \<Longrightarrow>
              taskIdToHeapNode s (thingId (payload nd)) = Some n"
    using ok unfolding indexOk_def Let_def by blast+
  have f: "fresh ?h \<notin> set (members ?h)" using b by blast
  have b': "\<And>n. n \<in> set (members ?h) \<Longrightarrow> n < Suc (fresh ?h)"
    using b less_SucI by blast
  have r': "\<And>n nd. n \<in> set (members ?h) \<Longrightarrow> objects ?h n = Some nd \<Longrightarrow>
              thingId (payload nd) \<noteq> thingId t"
    using r new by fastforce
  show ?thesis
    unfolding indexOk_def Let_def heap_insert_def
  proof (intro conjI allI ballI impI)
    show "distinct (members (prioritizedTasks (s\<lparr>prioritizedTasks := snd (fresh ?h, \<lparr>objects = (objects ?h)(fresh ?h \<mapsto> \<lparr>key = k, payload = t\<rparr>), fresh = Suc (fresh ?h), members = members ?h @ [fresh ?h]\<rparr>),
            taskIdToHeapNode := (taskIdToHeapNode s)(thingId t \<mapsto> fst (fresh ?h, \<lparr>objects = (objects ?h)(fresh ?h \<mapsto> \<lparr>key = k, payload = t\<rparr>), fresh = Suc (fresh ?h), members = members ?h @ [fresh ?h]\<rparr>))\<rparr>)))"
      using d f by simp
  qed (use b b' m r r' f new in \<open>auto split: if_splits\<close>)
qed

lemma indexOk_update_node:
  assumes ok: "indexOk s" and o: "objects (prioritizedTasks s) n = Some nd"
      and same: "thingId (payload nd') = thingId (payload nd)"
  shows "indexOk (s\<lparr>prioritizedTasks :=
            (prioritizedTasks s)\<lparr>objects := (objects (prioritizedTasks s))(n \<mapsto> nd')\<rparr>\<rparr>)"
proof -
  let ?h = "prioritizedTasks s"
  have d: "distinct (members ?h)"
    and b: "\<And>n. n \<in> set (members ?h) \<Longrightarrow> n < fresh ?h \<and> objects ?h n \<noteq> None"
    and m: "\<And>i n. taskIdToHeapNode s i = Some n \<Longrightarrow>
              n \<in> set (members ?h) \<and> (\<exists>nd. objects ?h n = Some nd \<and> thingId (payload nd) = i)"
    and r: "\<And>n nd. n \<in> set (members ?h) \<Longrightarrow> objects ?h n = Some nd \<Longrightarrow>
              taskIdToHeapNode s (thingId (payload nd)) = Some n"
    using ok unfolding indexOk_def Let_def by blast+
  show ?thesis
    unfolding indexOk_def Let_def
  proof (intro conjI allI ballI impI)
    fix i k
    assume "taskIdToHeapNode (s\<lparr>prioritizedTasks := ?h\<lparr>objects := (objects ?h)(n \<mapsto> nd')\<rparr>\<rparr>) i = Some k"
    then have ik: "taskIdToHeapNode s i = Some k" by simp
    from m[OF ik] obtain kd where kd: "k \<in> set (members ?h)" "objects ?h k = Some kd"
      "thingId (payload kd) = i" by blast
    show "\<exists>nd. objects (prioritizedTasks (s\<lparr>prioritizedTasks := ?h\<lparr>objects := (objects ?h)(n \<mapsto> nd')\<rparr>\<rparr>)) k = Some nd
               \<and> thingId (payload nd) = i"
      using kd o same by (cases "k = n") auto
  qed (use d b m r o same in \<open>auto split: if_splits\<close>)
qed

lemma indexOk_drop:
  assumes ok: "indexOk s" and mem: "n \<in> set (members (prioritizedTasks s))"
      and o: "objects (prioritizedTasks s) n = Some nd"
  shows "indexOk (s\<lparr>prioritizedTasks :=
                     (prioritizedTasks s)\<lparr>members := removeAll n (members (prioritizedTasks s))\<rparr>,
                   taskIdToHeapNode := (taskIdToHeapNode s)(thingId (payload nd) := None)\<rparr>)"
proof -
  let ?h = "prioritizedTasks s"
  have d: "distinct (members ?h)"
    and b: "\<And>n. n \<in> set (members ?h) \<Longrightarrow> n < fresh ?h \<and> objects ?h n \<noteq> None"
    and m: "\<And>i n. taskIdToHeapNode s i = Some n \<Longrightarrow>
              n \<in> set (members ?h) \<and> (\<exists>nd. objects ?h n = Some nd \<and> thingId (payload nd) = i)"
    and r: "\<And>n nd. n \<in> set (members ?h) \<Longrightarrow> objects ?h n = Some nd \<Longrightarrow>
              taskIdToHeapNode s (thingId (payload nd)) = Some n"
    using ok unfolding indexOk_def Let_def by blast+
  have only: "\<And>i. taskIdToHeapNode s i = Some n \<Longrightarrow> i = thingId (payload nd)"
    using m o by fastforce
  have other: "\<And>k kd. k \<in> set (members ?h) \<Longrightarrow> k \<noteq> n \<Longrightarrow> objects ?h k = Some kd \<Longrightarrow>
                 thingId (payload kd) \<noteq> thingId (payload nd)"
    using r[OF mem o] r by fastforce
  show ?thesis
    unfolding indexOk_def Let_def
    by (intro conjI allI ballI impI)
       (use d b m r only other in \<open>auto simp: distinct_removeAll split: if_splits\<close>)
qed

lemma indexOk_prioritize_new:
  "indexOk s \<Longrightarrow> taskIdToHeapNode s (thingId t) = None \<Longrightarrow> indexOk (prioritizeTaskThing t s)"
  by (simp add: prioritizeTaskThing_def Let_def indexOk_insert)

lemma indexOk_prioritize_keep:
  assumes ok: "indexOk s" and i: "taskIdToHeapNode s (thingId t) = Some n"
      and o: "objects (prioritizedTasks s) n = Some nd" and le: "nodeKeyFor s t \<le> key nd"
  shows "indexOk (prioritizeTaskThing t s)"
proof -
  have same: "thingId (payload nd) = thingId t"
    using ok i o unfolding indexOk_def Let_def by fastforce
  have n1: "\<And>k. nd\<lparr>key := k, payload := t\<rparr> = \<lparr>key = k, payload = t\<rparr>"
    by (cases nd) simp
  have n2: "nd\<lparr>payload := t\<rparr> = \<lparr>key = key nd, payload = t\<rparr>"
    by (cases nd) simp
  have eq: "prioritizeTaskThing t s =
      setupTaskPriorityTracking t n (cleanupTaskPriorityTracking (payload nd) None
        (s\<lparr>prioritizedTasks := (prioritizedTasks s)\<lparr>objects :=
              (objects (prioritizedTasks s))(n \<mapsto> \<lparr>key = nodeKeyFor s t, payload = t\<rparr>)\<rparr>\<rparr>))"
    using i o le
    by (cases "nodeKeyFor s t < key nd")
       (simp_all add: prioritizeTaskThing_def Let_def reprioritizeHeapNode_def decreaseKey_def
          setValue_def cleanupTaskPriorityTracking_def setupTaskPriorityTracking_def n1 n2)
  show ?thesis
    unfolding eq using indexOk_update_node[OF ok o, of "\<lparr>key = nodeKeyFor s t, payload = t\<rparr>"] same
    by simp
qed

lemma indexOk_pop: "indexOk s \<Longrightarrow> indexOk (snd (popNextAvailableTask s))"
proof -
  assume ok: "indexOk s"
  show ?thesis
  proof (cases "minimumOf (objects (prioritizedTasks s)) (members (prioritizedTasks s))")
    case None
    then show ?thesis using ok by (simp add: popNextAvailableTask_def extractMinimum_def)
  next
    case (Some n)
    from minimumOf_mem[OF Some] obtain nd where
      n: "n \<in> set (members (prioritizedTasks s))" "objects (prioritizedTasks s) n = Some nd" by auto
    show ?thesis
      using indexOk_drop[OF ok n] Some n
      by (simp add: popNextAvailableTask_def extractMinimum_def Let_def)
  qed
qed

lemma indexOk_remove: "indexOk s \<Longrightarrow> indexOk (removeTaskThing i s)"
proof -
  assume ok: "indexOk s"
  show ?thesis
  proof (cases "taskIdToHeapNode s i")
    case None
    then show ?thesis using ok by (simp add: removeTaskThing_def)
  next
    case (Some n)
    from ok Some obtain nd where
      n: "n \<in> set (members (prioritizedTasks s))" "objects (prioritizedTasks s) n = Some nd"
      and id: "thingId (payload nd) = i"
      unfolding indexOk_def Let_def by blast
    show ?thesis
      using indexOk_drop[OF ok n] Some n id
      by (simp add: removeTaskThing_def heap_delete_def Let_def)
  qed
qed

lemma indexOk_steady:
  "indexOk s \<Longrightarrow> steady ops s \<Longrightarrow> indexOk (foldl (\<lambda>s op. applyOp op s) s ops)"
proof (induction ops arbitrary: s)
  case Nil
  then show ?case by simp
next
  case (Cons op ops)
  have "indexOk (applyOp op s)"
  proof (cases op)
    case (Prioritize t)
    show ?thesis
    proof (cases "taskIdToHeapNode s (thingId t)")
      case None
      then show ?thesis using Cons.prems(1) Prioritize by (simp add: indexOk_prioritize_new)
    next
      case (Some n)
      from Cons.prems(1) Some obtain nd where o: "objects (prioritizedTasks s) n = Some nd"
        unfolding indexOk_def Let_def by blast
      from Cons.prems(2) Prioritize Some o have "nodeKeyFor s t \<le> key nd" by simp
      then show ?thesis
        using indexOk_prioritize_keep[OF Cons.prems(1) Some o] Prioritize by simp
    qed
  next
    case Pop
    then show ?thesis using Cons.prems(1) by (simp add: indexOk_pop)
  next
    case (Remove i)
    then show ?thesis using Cons.prems(1) by (simp add: indexOk_remove)
  qed
  then show ?case using Cons.IH[of "applyOp op s"] Cons.prems(2) by simp
qed

text \<open>
  C5. The claim: every live id has exactly one heap node, the id-to-node map holds it,
  re-prioritizing an id reuses its node, and a removed id has no heap node. On the
  code: prioritize \<open>taskA\<close> (id 1, priority 5), then \<open>taskA1\<close> (id 1, priority 1).
  The key grows, so node 0 is deleted and a second node, 1, is inserted, which the map
  never learns of: the map still gives node 0 for id 1, the heap holds node 1 only,
  node 1 carries the old \<open>taskA\<close> and the new \<open>taskA1\<close> sits in the detached node 0.
  \<open>removeTaskThing 1\<close> then clears the map entry and leaves node 1 in the heap.
\<close>

theorem reprioritize_detaches_mapped_node:
  "(let s2 = prioritizeTaskThing taskA1 (prioritizeTaskThing taskA newTaskPriorities);
        s3 = removeTaskThing 1 s2
    in taskIdToHeapNode s2 1 = Some 0
       \<and> members (prioritizedTasks s2) = [1]
       \<and> objects (prioritizedTasks s2) 0 = Some \<lparr>key = - 5, payload = taskA1\<rparr>
       \<and> objects (prioritizedTasks s2) 1 = Some \<lparr>key = - 1, payload = taskA\<rparr>
       \<and> taskIdToHeapNode s3 1 = None
       \<and> members (prioritizedTasks s3) = [1])"
  by code_simp

subsection \<open>The order of pops\<close>

text \<open>
  None of the three operations touches the summed weights, so effective priorities
  stay what they are; \<open>keysOk\<close> is kept by the steps that keep \<open>indexOk\<close>.
\<close>

lemma nodeKeyFor_effective: "nodeKeyFor s t = - effectivePriority s t"
  by (simp add: nodeKeyFor_def effectivePriority_def computePriorityForTags_def foldl_add_weight)

lemma effectivePriority_cong:
  "summedPriorityTags s' = summedPriorityTags s \<Longrightarrow> effectivePriority s' t = effectivePriority s t"
  by (simp add: effectivePriority_def)

lemma summed_prioritize [simp]:
  "summedPriorityTags (prioritizeTaskThing t s) = summedPriorityTags s"
  by (simp add: prioritizeTaskThing_def Let_def reprioritizeHeapNode_def
      setupTaskPriorityTracking_def cleanupTaskPriorityTracking_def split: option.splits)

lemma summed_pop [simp]:
  "summedPriorityTags (snd (popNextAvailableTask s)) = summedPriorityTags s"
  by (simp add: popNextAvailableTask_def Let_def cleanupTaskPriorityTracking_def
      split: option.splits)

lemma summed_remove [simp]:
  "summedPriorityTags (removeTaskThing i s) = summedPriorityTags s"
  by (simp add: removeTaskThing_def Let_def cleanupTaskPriorityTracking_def split: option.splits)

lemma keysOk_new: "keysOk newTaskPriorities"
  by (simp add: keysOk_def newTaskPriorities_def emptyHeap_def)

lemma keysOk_prioritize_new:
  assumes ok: "indexOk s" and k: "keysOk s" and new: "taskIdToHeapNode s (thingId t) = None"
  shows "keysOk (prioritizeTaskThing t s)"
proof -
  have f: "fresh (prioritizedTasks s) \<notin> set (members (prioritizedTasks s))"
    using ok unfolding indexOk_def Let_def by blast
  have e: "\<And>u. effectivePriority (prioritizeTaskThing t s) u = effectivePriority s u"
    by (rule effectivePriority_cong) simp
  show ?thesis
    unfolding keysOk_def e
    using k f new unfolding keysOk_def
    by (auto simp: prioritizeTaskThing_def Let_def heap_insert_def nodeKeyFor_effective
        split: if_splits)
qed

lemma keysOk_prioritize_keep:
  assumes k: "keysOk s" and i: "taskIdToHeapNode s (thingId t) = Some n"
      and o: "objects (prioritizedTasks s) n = Some nd" and le: "nodeKeyFor s t \<le> key nd"
  shows "keysOk (prioritizeTaskThing t s)"
proof -
  have e: "\<And>u. effectivePriority (prioritizeTaskThing t s) u = effectivePriority s u"
    by (rule effectivePriority_cong) simp
  have n1: "\<And>k. nd\<lparr>key := k, payload := t\<rparr> = \<lparr>key = k, payload = t\<rparr>"
    by (cases nd) simp
  have n2: "nd\<lparr>payload := t\<rparr> = \<lparr>key = key nd, payload = t\<rparr>"
    by (cases nd) simp
  have h: "prioritizedTasks (prioritizeTaskThing t s) =
      (prioritizedTasks s)\<lparr>objects :=
              (objects (prioritizedTasks s))(n \<mapsto> \<lparr>key = nodeKeyFor s t, payload = t\<rparr>)\<rparr>"
    using i o le
    by (cases "nodeKeyFor s t < key nd")
       (simp_all add: prioritizeTaskThing_def Let_def reprioritizeHeapNode_def decreaseKey_def
          setValue_def n1 n2)
  show ?thesis
    unfolding keysOk_def e h
    using k unfolding keysOk_def
    by (auto simp: nodeKeyFor_effective split: if_splits)
qed

lemma keysOk_pop: "keysOk s \<Longrightarrow> keysOk (snd (popNextAvailableTask s))"
proof -
  assume k: "keysOk s"
  have e: "\<And>u. effectivePriority (snd (popNextAvailableTask s)) u = effectivePriority s u"
    by (rule effectivePriority_cong) simp
  show ?thesis
    unfolding keysOk_def e
    using k unfolding keysOk_def
    by (auto simp: popNextAvailableTask_def extractMinimum_def Let_def split: option.splits)
qed

lemma keysOk_remove: "keysOk s \<Longrightarrow> keysOk (removeTaskThing i s)"
proof -
  assume k: "keysOk s"
  have e: "\<And>u. effectivePriority (removeTaskThing i s) u = effectivePriority s u"
    by (rule effectivePriority_cong) simp
  show ?thesis
    unfolding keysOk_def e
    using k unfolding keysOk_def
    by (auto simp: removeTaskThing_def heap_delete_def Let_def split: option.splits)
qed

lemma index_steady:
  "indexOk s \<Longrightarrow> keysOk s \<Longrightarrow> steady ops s \<Longrightarrow>
   indexOk (foldl (\<lambda>s op. applyOp op s) s ops) \<and> keysOk (foldl (\<lambda>s op. applyOp op s) s ops)"
proof (induction ops arbitrary: s)
  case Nil
  then show ?case by simp
next
  case (Cons op ops)
  have "indexOk (applyOp op s) \<and> keysOk (applyOp op s)"
  proof (cases op)
    case (Prioritize t)
    show ?thesis
    proof (cases "taskIdToHeapNode s (thingId t)")
      case None
      then show ?thesis
        using Cons.prems(1,2) Prioritize
        by (simp add: indexOk_prioritize_new keysOk_prioritize_new)
    next
      case (Some n)
      from Cons.prems(1) Some obtain nd where o: "objects (prioritizedTasks s) n = Some nd"
        unfolding indexOk_def Let_def by blast
      from Cons.prems(3) Prioritize Some o have "nodeKeyFor s t \<le> key nd" by simp
      then show ?thesis
        using indexOk_prioritize_keep[OF Cons.prems(1) Some o]
          keysOk_prioritize_keep[OF Cons.prems(2) Some o] Prioritize by simp
    qed
  next
    case Pop
    then show ?thesis using Cons.prems(1,2) by (simp add: indexOk_pop keysOk_pop)
  next
    case (Remove i)
    then show ?thesis using Cons.prems(1,2) by (simp add: indexOk_remove keysOk_remove)
  qed
  then show ?case using Cons.IH[of "applyOp op s"] Cons.prems(3) by simp
qed

text \<open>
  What a pop returns when the index is in order: the value of a node of maximal effective
  priority, every node inserted before it having a strictly smaller one; the node leaves
  the heap and its id leaves the map.
\<close>

lemma pop_maximal:
  assumes ok: "indexOk s" and k: "keysOk s"
      and pop: "popNextAvailableTask s = (Returned t, s')"
  shows "\<exists>m pre post.
           members (prioritizedTasks s) = pre @ m # post
           \<and> map_option payload (objects (prioritizedTasks s) m) = Some t
           \<and> (\<forall>n \<in> set pre. \<forall>nd. objects (prioritizedTasks s) n = Some nd \<longrightarrow>
                  effectivePriority s (payload nd) < effectivePriority s t)
           \<and> (\<forall>n \<in> set post. \<forall>nd. objects (prioritizedTasks s) n = Some nd \<longrightarrow>
                  effectivePriority s (payload nd) \<le> effectivePriority s t)
           \<and> members (prioritizedTasks s') = pre @ post
           \<and> taskIdToHeapNode s' (thingId t) = None"
proof -
  let ?h = "prioritizedTasks s"
  from pop obtain m where m: "minimumOf (objects ?h) (members ?h) = Some m"
    by (auto simp: popNextAvailableTask_def extractMinimum_def Let_def split: option.splits)
  from minimumOf_mem[OF m] obtain md where md: "m \<in> set (members ?h)" "objects ?h m = Some md"
    by auto
  from pop m md have t: "payload md = t"
    and s': "members (prioritizedTasks s') = removeAll m (members ?h)"
            "taskIdToHeapNode s' (thingId t) = None"
    by (auto simp: popNextAvailableTask_def extractMinimum_def Let_def)
  from minimumOf_first[OF m md(2)] obtain pre post where
    p: "members ?h = pre @ m # post"
       "\<forall>n \<in> set pre. \<forall>nd. objects ?h n = Some nd \<longrightarrow> key md < key nd" by blast
  have d: "distinct (members ?h)" using ok unfolding indexOk_def Let_def by blast
  then have mp: "m \<notin> set pre" "m \<notin> set post" using p(1) by auto
  then have rm: "removeAll m (members ?h) = pre @ post" using p(1) by simp
  have kk: "\<And>n nd. n \<in> set (members ?h) \<Longrightarrow> objects ?h n = Some nd \<Longrightarrow>
              key nd = - effectivePriority s (payload nd)"
    using k unfolding keysOk_def by blast
  have km: "key md = - effectivePriority s t" using kk[OF md] t by simp
  have lt: "\<forall>n \<in> set pre. \<forall>nd. objects ?h n = Some nd \<longrightarrow>
              effectivePriority s (payload nd) < effectivePriority s t"
  proof (intro ballI allI impI)
    fix n nd assume n: "n \<in> set pre" "objects ?h n = Some nd"
    then have "key md < key nd" using p(2) by blast
    moreover have "key nd = - effectivePriority s (payload nd)"
      using kk[of n nd] n p(1) by simp
    ultimately show "effectivePriority s (payload nd) < effectivePriority s t"
      using km by simp
  qed
  have le: "\<forall>n \<in> set post. \<forall>nd. objects ?h n = Some nd \<longrightarrow>
              effectivePriority s (payload nd) \<le> effectivePriority s t"
  proof (intro ballI allI impI)
    fix n nd assume n: "n \<in> set post" "objects ?h n = Some nd"
    then have mem: "n \<in> set (members ?h)" using p(1) by simp
    have "key md \<le> key nd" using minimumOf_least[OF m md(2) mem n(2)] .
    moreover have "key nd = - effectivePriority s (payload nd)"
      using kk[OF mem n(2)] .
    ultimately show "effectivePriority s (payload nd) \<le> effectivePriority s t"
      using km by simp
  qed
  show ?thesis
    using p(1) md(2) t lt le s' rm
    by (intro exI[of _ m] exI[of _ pre] exI[of _ post]) simp
qed

text \<open>
  So after every steady run from a fresh index a pop returns an entry of maximal
  effective priority, the earliest inserted among equals.
\<close>

lemma steady_run_pop_maximal:
  assumes run: "steady ops newTaskPriorities"
      and s: "s = foldl (\<lambda>s op. applyOp op s) newTaskPriorities ops"
      and pop: "popNextAvailableTask s = (Returned t, s')"
  shows "\<exists>m pre post.
           members (prioritizedTasks s) = pre @ m # post
           \<and> map_option payload (objects (prioritizedTasks s) m) = Some t
           \<and> (\<forall>n \<in> set pre. \<forall>nd. objects (prioritizedTasks s) n = Some nd \<longrightarrow>
                  effectivePriority s (payload nd) < effectivePriority s t)
           \<and> (\<forall>n \<in> set post. \<forall>nd. objects (prioritizedTasks s) n = Some nd \<longrightarrow>
                  effectivePriority s (payload nd) \<le> effectivePriority s t)
           \<and> members (prioritizedTasks s') = pre @ post
           \<and> taskIdToHeapNode s' (thingId t) = None"
proof -
  have "indexOk s \<and> keysOk s"
    unfolding s by (rule index_steady[OF indexOk_new keysOk_new run])
  then show ?thesis
    using pop_maximal[OF _ _ pop] by blast
qed

text \<open>
  Scenario A: three tasks without resources and with priorities 5, 1, 5, in that
  order, come out as the first, the third, the second; a fourth pop throws.
\<close>

lemma scenario_A:
  "(let t1 = WrappedTask 1 [] (Some 5); t2 = WrappedTask 2 [] (Some 1); t3 = WrappedTask 3 [] (Some 5);
        s = prioritizeTaskThing t3 (prioritizeTaskThing t2 (prioritizeTaskThing t1 newTaskPriorities));
        p1 = popNextAvailableTask s;
        p2 = popNextAvailableTask (snd p1);
        p3 = popNextAvailableTask (snd p2)
    in fst p1 = Returned t1 \<and> fst p2 = Returned t3 \<and> fst p3 = Returned t2
       \<and> fst (popNextAvailableTask (snd p3)) = Threw TypeError)"
  by code_simp

text \<open>
  C1. The claim: after any sequence of \<open>prioritizeTaskThing\<close> calls each pop returns
  a task or marker of maximal effective priority among the entries of the index. On the
  code: prioritize \<open>taskA\<close> (id 1, priority 5), \<open>taskB\<close> (id 2, priority 3), then
  \<open>taskA1\<close> (id 1 again, priority 1). The heap then holds \<open>taskB\<close> and, under the
  key of \<open>taskA1\<close>, the superseded object \<open>taskA\<close>. The first pop returns
  \<open>taskB\<close> (3) and the second \<open>taskA\<close> (5); \<open>taskA1\<close> is never returned. If
  id 1 is instead prioritized once more, with priority 7 (\<open>taskA7\<close>), the update goes
  to the detached node and the pop still returns \<open>taskB\<close>.
\<close>

theorem pop_returns_superseded_task:
  "(let s3 = prioritizeTaskThing taskA1
               (prioritizeTaskThing taskB (prioritizeTaskThing taskA newTaskPriorities));
        p1 = popNextAvailableTask s3;
        p2 = popNextAvailableTask (snd p1);
        s4 = prioritizeTaskThing taskA7 s3
    in members (prioritizedTasks s3) = [1, 2]
       \<and> objects (prioritizedTasks s3) 1 = Some \<lparr>key = - 3, payload = taskB\<rparr>
       \<and> objects (prioritizedTasks s3) 2 = Some \<lparr>key = - 1, payload = taskA\<rparr>
       \<and> effectivePriority s3 taskB = 3 \<and> effectivePriority s3 taskA = 5
       \<and> effectivePriority s3 taskA1 = 1
       \<and> fst p1 = Returned taskB
       \<and> fst p2 = Returned taskA
       \<and> fst (popNextAvailableTask s4) = Returned taskB
       \<and> effectivePriority s4 taskA7 = 7)"
  by code_simp

subsection \<open>Boost sums\<close>

text \<open>
  The effect of the two loops of phase 1 on the summed weights, were they to run over
  the entries of the two maps.
\<close>

lemma sums_applyDelta:
  "sums (applyDelta tn tag d acc) = (sums acc)(tag := storedSum (weightOf (sums acc) tag + d))"
  by (simp add: applyDelta_def Let_def storedSum_def)

lemma weightOf_storedSum [simp]: "weightOf (\<lambda>t. storedSum (f t)) tag = f tag"
  by (simp add: weightOf_def storedSum_def)

lemma phase1a:
  "distinct (map fst L) \<Longrightarrow>
   sums (foldl (\<lambda>acc (priorityTag, newPriority).
                 applyDelta tn priorityTag (newPriority - getOr0 E priorityTag) acc) acc L) tag
   = (case map_of L tag of
        None \<Rightarrow> sums acc tag
      | Some v \<Rightarrow> storedSum (weightOf (sums acc) tag + (v - getOr0 E tag)))"
proof (induction L arbitrary: acc)
  case Nil
  then show ?case by simp
next
  case (Cons e L)
  obtain t v where e: "e = (t, v)" by (cases e)
  from Cons.prems e have d: "distinct (map fst L)" and n: "t \<notin> fst ` set L" by auto
  from n have m: "map_of L t = None" by (simp add: map_of_eq_None_iff)
  show ?case
    using Cons.IH[OF d, of "applyDelta tn t (v - getOr0 E t) acc"] m
    by (auto simp: e sums_applyDelta weightOf_def split: option.splits)
qed

lemma phase1b:
  "distinct (map fst L) \<Longrightarrow>
   sums (foldl (\<lambda>acc (priorityTag, oldPriority).
                 case map_of N priorityTag of
                   Some newPriority \<Rightarrow> acc
                 | None \<Rightarrow> applyDelta tn priorityTag (- oldPriority) acc) acc L) tag
   = (case map_of L tag of
        None \<Rightarrow> sums acc tag
      | Some old \<Rightarrow>
          (case map_of N tag of
             Some v \<Rightarrow> sums acc tag
           | None \<Rightarrow> storedSum (weightOf (sums acc) tag + (- old))))"
proof (induction L arbitrary: acc)
  case Nil
  then show ?case by simp
next
  case (Cons e L)
  obtain t v where e: "e = (t, v)" by (cases e)
  from Cons.prems e have d: "distinct (map fst L)" and n: "t \<notin> fst ` set L" by auto
  from n have m: "map_of L t = None" by (simp add: map_of_eq_None_iff)
  show ?case
  proof (cases "map_of N t")
    case (Some x)
    then show ?thesis
      using Cons.IH[OF d, of acc] m by (auto simp: e split: option.splits)
  next
    case None
    then show ?thesis
      using Cons.IH[OF d, of "applyDelta tn t (- v) acc"] m
      by (auto simp: e sums_applyDelta weightOf_def split: option.splits)
  qed
qed

lemma summed_after:
  "summedPriorityTags (snd (applyPerThingDeltas ds s)) = summedPriorityTags s"
  "priorityTagsByOwner (snd (applyPerThingDeltas ds s)) = priorityTagsByOwner s"
  by (simp_all add: applyPerThingDeltas_def split: list.splits)

lemma boostTotal_update:
  assumes fin: "finite (dom (priorityTagsByOwner s))"
      and upd: "priorityTagsByOwner s' = (priorityTagsByOwner s)(owner := v)"
  shows "boostTotal s' tag = boostTotal s tag - ownerBoost s owner tag + ownerBoost s' owner tag"
proof -
  let ?D = "insert owner (dom (priorityTagsByOwner s))"
  have finD: "finite ?D" using fin by simp
  have tot: "\<And>u. dom (priorityTagsByOwner u) \<subseteq> ?D \<Longrightarrow>
                boostTotal u tag = (\<Sum>w\<in>?D. ownerBoost u w tag)"
  proof -
    fix u :: taskPriorities
    assume sub: "dom (priorityTagsByOwner u) \<subseteq> ?D"
    have "(\<Sum>w\<in>?D. ownerBoost u w tag) = (\<Sum>w\<in>dom (priorityTagsByOwner u). ownerBoost u w tag)"
      by (rule sum.mono_neutral_right[OF finD sub]) (auto simp: ownerBoost_def split: option.splits)
    then show "boostTotal u tag = (\<Sum>w\<in>?D. ownerBoost u w tag)"
      by (simp add: boostTotal_def)
  qed
  have s: "boostTotal s tag = (\<Sum>w\<in>?D. ownerBoost s w tag)"
    by (rule tot) auto
  have s': "boostTotal s' tag = (\<Sum>w\<in>?D. ownerBoost s' w tag)"
    by (rule tot) (auto simp: upd split: if_splits)
  have rest: "(\<Sum>w\<in>?D - {owner}. ownerBoost s' w tag) = (\<Sum>w\<in>?D - {owner}. ownerBoost s w tag)"
    by (rule sum.cong) (auto simp: ownerBoost_def upd)
  have "(\<Sum>w\<in>?D. ownerBoost s w tag) = ownerBoost s owner tag + (\<Sum>w\<in>?D - {owner}. ownerBoost s w tag)"
    by (rule sum.remove[OF finD]) simp
  moreover have "(\<Sum>w\<in>?D. ownerBoost s' w tag) = ownerBoost s' owner tag + (\<Sum>w\<in>?D - {owner}. ownerBoost s' w tag)"
    by (rule sum.remove[OF finD]) simp
  ultimately show ?thesis
    using s s' rest by simp
qed

lemma getOr0_absent: "map_of m tag = None \<Longrightarrow> getOr0 m tag = 0"
  by (simp add: getOr0_def)

lemma getOr0_present: "map_of m tag = Some v \<Longrightarrow> getOr0 m tag = v"
  by (simp add: getOr0_def)

lemma sumsExact_new: "sumsExact newTaskPriorities"
  by (simp add: sumsExact_def newTaskPriorities_def boostTotal_def storedSum_def)

lemma sumsExact_entries:
  assumes inv: "sumsExact s" and dn: "properMap (owningId, tagsWithValues)"
  shows "sumsExact (snd (setPriorityBoostTagsUsing mapEntries owningId tagsWithValues s))"
proof -
  define E where "E = (case priorityTagsByOwner s owningId of None \<Rightarrow> [] | Some m \<Rightarrow> m)"
  define N where "N = (case tagsWithValues of None \<Rightarrow> [] | Some m \<Rightarrow> m)"
  define s' where "s' = snd (setPriorityBoostTagsUsing mapEntries owningId tagsWithValues s)"
  have fin: "finite (dom (priorityTagsByOwner s))"
    and dist: "\<And>owner m. priorityTagsByOwner s owner = Some m \<Longrightarrow> distinct (map fst m)"
    and st: "\<And>tag. summedPriorityTags s tag = storedSum (boostTotal s tag)"
    using inv by (simp_all add: sumsExact_def)
  have dE: "distinct (map fst E)" using dist by (simp add: E_def split: option.splits)
  have dN: "distinct (map fst N)" using dn by (cases tagsWithValues) (simp_all add: N_def)
  have w: "\<And>tag. weightOf (summedPriorityTags s) tag = boostTotal s tag"
    by (simp add: weightOf_def st storedSum_def)
  have owners: "priorityTagsByOwner s' = (priorityTagsByOwner s)(owningId := tagsWithValues)"
    by (cases tagsWithValues)
       (simp_all add: s'_def setPriorityBoostTagsUsing_def mapEntries_def Let_def summed_after)
  have oldB: "\<And>tag. ownerBoost s owningId tag = getOr0 E tag"
    by (simp add: ownerBoost_def E_def getOr0_def split: option.splits)
  have newB: "\<And>tag. ownerBoost s' owningId tag = getOr0 N tag"
    by (simp add: ownerBoost_def owners N_def getOr0_def split: option.splits)
  have total: "\<And>tag. boostTotal s' tag = boostTotal s tag - getOr0 E tag + getOr0 N tag"
    using boostTotal_update[OF fin owners] by (simp add: oldB newB)
  define acc1 where "acc1 =
      foldl (\<lambda>acc (priorityTag, newPriority).
               applyDelta (priorityTagToHeapNodes s) priorityTag
                 (newPriority - getOr0 E priorityTag) acc)
        \<lparr>sums = summedPriorityTags s, perThingDeltas = []\<rparr> N"
  define acc2 where "acc2 =
      foldl (\<lambda>acc (priorityTag, oldPriority).
               case map_of N priorityTag of
                 Some newPriority \<Rightarrow> acc
               | None \<Rightarrow> applyDelta (priorityTagToHeapNodes s) priorityTag (- oldPriority) acc)
        acc1 E"
  have res: "summedPriorityTags s' = sums acc2"
    unfolding s'_def setPriorityBoostTagsUsing_def mapEntries_def Let_def
    by (simp add: summed_after E_def[symmetric] N_def[symmetric] acc1_def[symmetric]
          acc2_def[symmetric])
  have s1: "\<And>tag. sums acc1 tag =
      (case map_of N tag of
         None \<Rightarrow> storedSum (boostTotal s tag)
       | Some v \<Rightarrow> storedSum (boostTotal s tag + (v - getOr0 E tag)))"
    unfolding acc1_def by (simp add: phase1a[OF dN] st w split: option.splits)
  have w1: "\<And>tag. map_of N tag = None \<Longrightarrow> weightOf (sums acc1) tag = boostTotal s tag"
    by (simp add: weightOf_def s1 storedSum_def)
  have s2: "\<And>tag. sums acc2 tag =
      (case map_of E tag of
         None \<Rightarrow> sums acc1 tag
       | Some old \<Rightarrow>
           (case map_of N tag of
              Some v \<Rightarrow> sums acc1 tag
            | None \<Rightarrow> storedSum (weightOf (sums acc1) tag + (- old))))"
    unfolding acc2_def by (rule phase1b[OF dE])
  have "\<And>tag. summedPriorityTags s' tag = storedSum (boostTotal s' tag)"
  proof -
    fix tag
    show "summedPriorityTags s' tag = storedSum (boostTotal s' tag)"
    proof (cases "map_of N tag")
      case None
      then show ?thesis
        by (cases "map_of E tag")
           (simp_all add: res s2 s1 w1 total getOr0_absent getOr0_present algebra_simps)
    next
      case (Some v)
      then show ?thesis
        by (cases "map_of E tag")
           (simp_all add: res s2 s1 total getOr0_absent getOr0_present algebra_simps)
    qed
  qed
  moreover have "finite (dom (priorityTagsByOwner s'))"
    using fin by (simp add: owners split: option.splits)
  moreover have "\<And>owner m. priorityTagsByOwner s' owner = Some m \<Longrightarrow> distinct (map fst m)"
    using dist dn by (auto simp: owners split: if_splits)
  ultimately show ?thesis
    unfolding s'_def[symmetric] by (simp add: sumsExact_def)
qed

text \<open>
  Had the two loops iterated \<open>entries()\<close>, the sums would be exact after every
  sequence of calls: each tag's stored weight is the sum of the owners' current boosts
  for it, and a tag whose sum is zero has no entry.
\<close>

lemma boost_sums_exact_with_entries:
  assumes "list_all properMap cs"
  shows "sumsExact (boostRun mapEntries cs newTaskPriorities)"
proof -
  have "\<And>s. sumsExact s \<Longrightarrow> list_all properMap cs \<Longrightarrow> sumsExact (boostRun mapEntries cs s)"
  proof (induction cs)
    case Nil
    then show ?case by (simp add: boostRun_def)
  next
    case (Cons c cs)
    obtain owningId tagsWithValues where c: "c = (owningId, tagsWithValues)" by (cases c)
    from Cons.prems c have p: "properMap (owningId, tagsWithValues)" and r: "list_all properMap cs"
      by simp_all
    have "sumsExact (snd (setPriorityBoostTagsUsing mapEntries owningId tagsWithValues s))"
      by (rule sumsExact_entries[OF Cons.prems(1) p])
    from Cons.IH[OF this r] show ?case
      by (simp add: boostRun_def c)
  qed
  from this[OF sumsExact_new assms] show ?thesis .
qed

text \<open>As it is, every call throws and the sums stay as they were.\<close>

lemma setPriorityBoostTags_always_throws:
  "fst (setPriorityBoostTags owningId tagsWithValues s) = Threw TypeError
   \<and> summedPriorityTags (snd (setPriorityBoostTags owningId tagsWithValues s)) = summedPriorityTags s
   \<and> priorityTagsByOwner (snd (setPriorityBoostTags owningId tagsWithValues s))
       = (priorityTagsByOwner s)(owningId := tagsWithValues)"
  by (cases tagsWithValues)
     (simp_all add: setPriorityBoostTags_def setPriorityBoostTagsUsing_def mapItems_def Let_def)

text \<open>
  C2. The claim: after any sequence of \<open>setPriorityBoostTags\<close> calls the summed
  weight of a tag is the sum of the owners' latest boosts for it. On the code: the first
  call on a fresh index, owner \<open>viewA\<close> boosting \<open>folder:inbox\<close> by 10, records the
  owner's mapping and then throws \<open>TypeError\<close> at \<open>newValues.items()\<close>; no sum is
  written.
\<close>

theorem setPriorityBoostTags_throws:
  "(let r = setPriorityBoostTags ''viewA'' (Some [(''folder:inbox'', 10)]) newTaskPriorities
    in fst r = Threw TypeError
       \<and> priorityTagsByOwner (snd r) ''viewA'' = Some [(''folder:inbox'', 10)]
       \<and> summedPriorityTags (snd r) ''folder:inbox'' = None)"
  by code_simp

section \<open>Properties of the task definitions\<close>

lemma mnf_ret: "makesNoFinish (ret x)"
  by (simp add: makesNoFinish_def ret_def finishFree_def)

lemma mnf_throw: "makesNoFinish (throw e)"
  by (simp add: makesNoFinish_def throw_def finishFree_def)

lemma mnf_await: "\<not> isFinishTask c \<Longrightarrow> makesNoFinish (await c res)"
  unfolding makesNoFinish_def await_def finishFree_def
  by (intro allI exI[of _ "[c]"]) simp

lemma mnf_global: "makesNoFinish (global g name)"
  by (simp add: global_def mnf_ret mnf_throw split: option.split)

lemma mnf_getPersistent: "makesNoFinish getPersistent"
  by (simp add: makesNoFinish_def getPersistent_def finishFree_def)

lemma mnf_modifyPersistent: "makesNoFinish (modifyPersistent f)"
  unfolding makesNoFinish_def modifyPersistent_def finishFree_def
  by (intro allI exI[of _ "[]"]) simp

lemma fl_await: "finishesLast (await (FinishTask a) res)"
  unfolding finishesLast_def await_def finishFree_def
  by (intro allI exI[of _ "[]"]) simp

lemma fl_andThen:
  assumes m: "makesNoFinish m" and f: "\<And>x. finishesLast (f x)"
  shows "finishesLast (andThen m f)"
  unfolding finishesLast_def
proof
  fix r
  obtain cs where cs: "finishFree cs" "calls (snd (m r)) = calls r @ cs"
    using m unfolding makesNoFinish_def by blast
  show "\<exists>cs. finishFree cs \<and>
          ((\<exists>a. calls (snd (andThen m f r)) = calls r @ cs @ [FinishTask a])
           \<or> ((\<exists>e. fst (andThen m f r) = Threw e) \<and> calls (snd (andThen m f r)) = calls r @ cs))"
  proof (cases "m r")
    case (Pair out r')
    show ?thesis
    proof (cases out)
      case (Threw e)
      with Pair cs show ?thesis
        by (intro exI[of _ cs]) (simp add: andThen_def)
    next
      case (Returned x)
      from f[of x] obtain ds where ds: "finishFree ds"
        "(\<exists>a. calls (snd (f x r')) = calls r' @ ds @ [FinishTask a])
         \<or> ((\<exists>e. fst (f x r') = Threw e) \<and> calls (snd (f x r')) = calls r' @ ds)"
        unfolding finishesLast_def by blast
      have r': "calls r' = calls r @ cs" using cs Pair by simp
      have eq: "andThen m f r = f x r'" using Pair Returned by (simp add: andThen_def)
      have ff: "finishFree (cs @ ds)" using cs(1) ds(1) by (simp add: finishFree_def)
      show ?thesis
        using ds(2) ff unfolding eq r'
        by (intro exI[of _ "cs @ ds"]) auto
    qed
  qed
qed

lemma fl_store_flags: "finishesLast (store_flags_execute ctx imapDataName marker)"
  unfolding store_flags_execute_def
  by (auto intro!: fl_andThen mnf_await mnf_ret mnf_throw mnf_getPersistent mnf_modifyPersistent
        fl_await
      simp: Let_def split: option.split prod.split)

lemma fl_append:
  "finishesLast (append_message_execute ctx deriveMessageBlob readAsBinaryString g req)"
  unfolding append_message_execute_def
  by (auto intro!: fl_andThen mnf_await mnf_ret mnf_throw mnf_global fl_await
      simp: Let_def split: option.split sum.split)

text \<open>What \<open>finishesLast\<close> says of a run that starts with an empty log.\<close>

lemma finishesLast_count:
  assumes "finishesLast m"
  shows "(let res = m \<lparr>calls = [], persistent = p\<rparr>;
              cs = calls (snd res);
              n = length (filter isFinishTask cs)
          in n \<le> 1
             \<and> (fst res = Returned () \<longrightarrow> n = 1)
             \<and> (n = 1 \<longrightarrow> (\<exists>a. last cs = FinishTask a))
             \<and> (n = 0 \<longrightarrow> (\<exists>e. fst res = Threw e)))"
proof -
  let ?r = "\<lparr>calls = [], persistent = p\<rparr>"
  obtain cs where cs: "finishFree cs"
    "(\<exists>a. calls (snd (m ?r)) = calls ?r @ cs @ [FinishTask a])
     \<or> ((\<exists>e. fst (m ?r) = Threw e) \<and> calls (snd (m ?r)) = calls ?r @ cs)"
    using assms unfolding finishesLast_def by blast
  from cs(2) show ?thesis
  proof
    assume "\<exists>a. calls (snd (m ?r)) = calls ?r @ cs @ [FinishTask a]"
    then obtain a where "calls (snd (m ?r)) = cs @ [FinishTask a]" by auto
    with cs(1) show ?thesis by (simp add: Let_def finishFree_def)
  next
    assume "(\<exists>e. fst (m ?r) = Threw e) \<and> calls (snd (m ?r)) = calls ?r @ cs"
    then obtain e where "fst (m ?r) = Threw e" "calls (snd (m ?r)) = cs" by auto
    with cs(1) show ?thesis by (simp add: Let_def finishFree_def)
  qed
qed

lemma store_flags_rejected:
  assumes "acquireAccount ctx (Str (accountId marker)) = Inl e"
  shows "store_flags_execute ctx imapDataName marker \<lparr>calls = [], persistent = ps\<rparr>
         = (Threw e, \<lparr>calls = [AcquireAccount (Str (accountId marker))], persistent = ps\<rparr>)"
  using assms
  by (simp add: store_flags_execute_def andThen_def getPersistent_def await_def Let_def)

lemma append_rejected:
  assumes "acquireAccount ctx (field req ''accountId'') = Inl e"
  shows "append_message_execute ctx deriveMessageBlob readAsBinaryString g req
           \<lparr>calls = [], persistent = ()\<rparr>
         = (Threw e, \<lparr>calls = [AcquireAccount (field req ''accountId'')], persistent = ()\<rparr>)"
  using assms
  by (simp add: append_message_execute_def andThen_def await_def Let_def)

text \<open>
  C7, as amended. Neither \<open>execute\<close> catches an exception. On every exit path each
  calls \<open>finishTask\<close> at most once, and only as its last call; exactly once when the
  run completes normally; and a run that made no \<open>finishTask\<close> call ended by an
  exception. In particular, when \<open>acquireAccount\<close> rejects, the run ends with that
  rejection and \<open>finishTask\<close> has not been called.
\<close>

theorem execute_finishTask_at_most_once:
  "(let res = store_flags_execute ctx imapDataName marker \<lparr>calls = [], persistent = ps\<rparr>;
        cs = calls (snd res);
        n = length (filter isFinishTask cs)
    in n \<le> 1
       \<and> (fst res = Returned () \<longrightarrow> n = 1)
       \<and> (n = 1 \<longrightarrow> (\<exists>a. last cs = FinishTask a))
       \<and> (n = 0 \<longrightarrow> (\<exists>e. fst res = Threw e))
       \<and> (\<forall>e. acquireAccount ctx (Str (accountId marker)) = Inl e \<longrightarrow> fst res = Threw e \<and> n = 0))
   \<and> (let res = append_message_execute ctx' deriveMessageBlob readAsBinaryString g req
                  \<lparr>calls = [], persistent = ()\<rparr>;
           cs = calls (snd res);
           n = length (filter isFinishTask cs)
       in n \<le> 1
          \<and> (fst res = Returned () \<longrightarrow> n = 1)
          \<and> (n = 1 \<longrightarrow> (\<exists>a. last cs = FinishTask a))
          \<and> (n = 0 \<longrightarrow> (\<exists>e. fst res = Threw e))
          \<and> (\<forall>e. acquireAccount ctx' (field req ''accountId'') = Inl e \<longrightarrow> fst res = Threw e \<and> n = 0))"
proof -
  have a: "\<forall>e. acquireAccount ctx (Str (accountId marker)) = Inl e \<longrightarrow>
             fst (store_flags_execute ctx imapDataName marker \<lparr>calls = [], persistent = ps\<rparr>) = Threw e
             \<and> length (filter isFinishTask (calls (snd
                  (store_flags_execute ctx imapDataName marker \<lparr>calls = [], persistent = ps\<rparr>)))) = 0"
    by (simp add: store_flags_rejected)
  have b: "\<forall>e. acquireAccount ctx' (field req ''accountId'') = Inl e \<longrightarrow>
             fst (append_message_execute ctx' deriveMessageBlob readAsBinaryString g req
                    \<lparr>calls = [], persistent = ()\<rparr>) = Threw e
             \<and> length (filter isFinishTask (calls (snd
                  (append_message_execute ctx' deriveMessageBlob readAsBinaryString g req
                    \<lparr>calls = [], persistent = ()\<rparr>)))) = 0"
    by (simp add: append_rejected)
  show ?thesis
    using finishesLast_count [OF fl_store_flags, of ctx imapDataName marker ps]
      finishesLast_count [OF fl_append, of ctx' deriveMessageBlob readAsBinaryString g req "()"]
      a b
    by (simp add: Let_def)
qed

text \<open>
  The theorem at contexts whose calls all succeed (with every identifier declared, for
  \<open>append_message\<close>): one \<open>finishTask\<close> call each; and at a context whose
  \<open>acquireAccount\<close> rejects: none.
\<close>

theorem execute_finishTask_at_most_once_witness:
  "fst (store_flags_execute okContext ''FLAGS'' seenMarker \<lparr>calls = [], persistent = pendingSeen\<rparr>)
     = Returned ()
   \<and> length (filter isFinishTask (calls (snd
        (store_flags_execute okContext ''FLAGS'' seenMarker \<lparr>calls = [], persistent = pendingSeen\<rparr>)))) = 1
   \<and> fst (append_message_execute okContext (\<lambda>info. Inr (Str ''blob'')) (\<lambda>blob. Inr (Str ''text''))
            allDeclared draftTask \<lparr>calls = [], persistent = ()\<rparr>) = Returned ()
   \<and> length (filter isFinishTask (calls (snd
        (append_message_execute okContext (\<lambda>info. Inr (Str ''blob'')) (\<lambda>blob. Inr (Str ''text''))
            allDeclared draftTask \<lparr>calls = [], persistent = ()\<rparr>)))) = 1
   \<and> acquireAccount offlineContext (Str (accountId seenMarker)) = Inl (Rejected ''offline'')
   \<and> length (filter isFinishTask (calls (snd
        (store_flags_execute offlineContext ''FLAGS'' seenMarker \<lparr>calls = [], persistent = pendingSeen\<rparr>)))) = 0"
proof -
  have s: "fst (store_flags_execute okContext ''FLAGS'' seenMarker \<lparr>calls = [], persistent = pendingSeen\<rparr>)
     = Returned ()"
    by code_simp
  have a: "fst (append_message_execute okContext (\<lambda>info. Inr (Str ''blob'')) (\<lambda>blob. Inr (Str ''text''))
            allDeclared draftTask \<lparr>calls = [], persistent = ()\<rparr>) = Returned ()"
    by code_simp
  have off: "acquireAccount offlineContext (Str (accountId seenMarker)) = Inl (Rejected ''offline'')"
    by (simp add: offlineContext_def)
  show ?thesis
    using execute_finishTask_at_most_once
        [of okContext "''FLAGS''" seenMarker pendingSeen okContext "\<lambda>info. Inr (Str ''blob'')"
            "\<lambda>blob. Inr (Str ''text'')" allDeclared draftTask]
      execute_finishTask_at_most_once
        [of offlineContext "''FLAGS''" seenMarker pendingSeen okContext "\<lambda>info. Inr (Str ''blob'')"
            "\<lambda>blob. Inr (Str ''text'')" allDeclared draftTask]
      s a off
    by (simp add: Let_def)
qed

text \<open>
  C7 as stated fails: with an account that cannot be acquired \<open>store_flags\<close> ends
  with the rejection and no \<open>finishTask\<close> call; and \<open>append_message\<close>, whose
  identifier \<open>blob\<close> is declared nowhere, ends with \<open>ReferenceError\<close> and no
  \<open>finishTask\<close> call although every collaborator succeeds.
\<close>

theorem execute_finishTask_counterexample:
  "fst (store_flags_execute offlineContext ''FLAGS'' seenMarker \<lparr>calls = [], persistent = pendingSeen\<rparr>)
     = Threw (Rejected ''offline'')
   \<and> length (filter isFinishTask (calls (snd
        (store_flags_execute offlineContext ''FLAGS'' seenMarker \<lparr>calls = [], persistent = pendingSeen\<rparr>)))) = 0
   \<and> fst (append_message_execute okContext (\<lambda>info. Inr (Str ''blob'')) (\<lambda>blob. Inr (Str ''text''))
            Map.empty draftTask \<lparr>calls = [], persistent = ()\<rparr>) = Threw ReferenceError
   \<and> length (filter isFinishTask (calls (snd
        (append_message_execute okContext (\<lambda>info. Inr (Str ''blob'')) (\<lambda>blob. Inr (Str ''text''))
            Map.empty draftTask \<lparr>calls = [], persistent = ()\<rparr>)))) = 0"
  by code_simp

text \<open>
  C8. When \<open>execute\<close> of \<open>store_flags\<close> completes normally for a marker, the
  persistent state has no entry for the marker's umid, every other entry is as before,
  and the run made exactly one \<open>finishTask\<close> call, its last call, whose
  \<open>complexTaskState\<close> is that updated persistent state.
\<close>

theorem store_flags_success_clears:
  assumes "store_flags_execute ctx imapDataName marker \<lparr>calls = [], persistent = ps\<rparr> = (Returned (), r')"
  shows "umidChanges (persistent r') (umid marker) = None
         \<and> (\<forall>u. u \<noteq> umid marker \<longrightarrow> umidChanges (persistent r') u = umidChanges ps u)
         \<and> filter isFinishTask (calls r') = [FinishTask (ComplexTaskState (persistent r'))]
         \<and> last (calls r') = FinishTask (ComplexTaskState (persistent r'))"
  using assms
  by (auto simp: store_flags_execute_def andThen_def await_def ret_def throw_def
        getPersistent_def modifyPersistent_def Let_def
      split: sum.splits option.splits prod.splits if_splits)

text \<open>
  The theorem at a state with pending changes for \<open>umid1\<close> and \<open>umid2\<close> and the
  marker of \<open>umid1\<close>: the run completes, \<open>umid1\<close> is cleared, \<open>umid2\<close> stays.
\<close>

theorem store_flags_success_clears_witness:
  "fst (store_flags_execute okContext ''FLAGS'' seenMarker \<lparr>calls = [], persistent = pendingSeen\<rparr>)
     = Returned ()
   \<and> umidChanges (persistent (snd (store_flags_execute okContext ''FLAGS'' seenMarker
        \<lparr>calls = [], persistent = pendingSeen\<rparr>))) ''umid1'' = None
   \<and> umidChanges (persistent (snd (store_flags_execute okContext ''FLAGS'' seenMarker
        \<lparr>calls = [], persistent = pendingSeen\<rparr>))) ''umid2''
        = Some \<lparr>addFlags = None, removeFlags = Some [''Flagged'']\<rparr>
   \<and> filter isFinishTask (calls (snd (store_flags_execute okContext ''FLAGS'' seenMarker
        \<lparr>calls = [], persistent = pendingSeen\<rparr>)))
      = [FinishTask (ComplexTaskState (persistent (snd (store_flags_execute okContext ''FLAGS''
           seenMarker \<lparr>calls = [], persistent = pendingSeen\<rparr>))))]"
proof -
  let ?res = "store_flags_execute okContext ''FLAGS'' seenMarker \<lparr>calls = [], persistent = pendingSeen\<rparr>"
  have s: "fst ?res = Returned ()"
    by code_simp
  then have e: "?res = (Returned (), snd ?res)"
    by (metis prod.collapse)
  have u: "umid seenMarker = ''umid1''"
    by (simp add: seenMarker_def)
  show ?thesis
    using store_flags_success_clears [OF e] s u
    by (simp add: pendingSeen_def)
qed

text \<open>
  C9. For every raw task, \<open>plan\<close> of \<open>append_message\<close> makes exactly one call,
  \<open>finishTask\<close> with a \<open>taskState\<close> whose \<open>resources\<close>,
  \<open>exclusiveResources\<close> and \<open>priorityTags\<close> are empty arrays and whose other
  fields are those of the raw task; it returns or throws as that call does. With its
  empty resource list the planned task acquires its resources whatever is held.
\<close>

theorem append_message_plan_frame:
  "(let res = append_message_plan ctx rawTask \<lparr>calls = [], persistent = ()\<rparr>
    in \<exists>plannedTask.
         calls (snd res) = [FinishTask (TaskState plannedTask)]
         \<and> fst res = (case finishTask ctx (TaskState plannedTask) of
                        Inl e \<Rightarrow> Threw e | Inr u \<Rightarrow> Returned ())
         \<and> plannedTask ''resources'' = Some (Arr [])
         \<and> plannedTask ''exclusiveResources'' = Some (Arr [])
         \<and> plannedTask ''priorityTags'' = Some (Arr [])
         \<and> (\<forall>f. f \<notin> {''resources'', ''exclusiveResources'', ''priorityTags''} \<longrightarrow>
                plannedTask f = rawTask f)
         \<and> (\<forall>claimantId held. fst (tryAcquireAll (resourcesOf plannedTask) claimantId held)))"
  by (simp add: append_message_plan_def shallowClone_def await_def Let_def tryAcquireAll_def
      resourcesOf_def split: sum.split)

text \<open>
  The theorem at a raw task that has an \<open>accountId\<close>, a non-empty \<open>priorityTags\<close>
  and no \<open>messageInfo\<close>.
\<close>

theorem append_message_plan_frame_witness:
  "\<exists>plannedTask.
     calls (snd (append_message_plan okContext draftTask \<lparr>calls = [], persistent = ()\<rparr>))
       = [FinishTask (TaskState plannedTask)]
     \<and> plannedTask ''priorityTags'' = Some (Arr [])
     \<and> plannedTask ''resources'' = Some (Arr [])
     \<and> plannedTask ''accountId'' = Some (Str ''acct1'')
     \<and> plannedTask ''messageInfo'' = None
     \<and> draftTask ''priorityTags'' = Some (Arr [Str ''view:sent''])
     \<and> fst (tryAcquireAll (resourcesOf plannedTask) ''task1'' [Str ''folder:sent'' \<mapsto> ''task0''])"
proof -
  have "\<exists>plannedTask.
         calls (snd (append_message_plan okContext draftTask \<lparr>calls = [], persistent = ()\<rparr>))
           = [FinishTask (TaskState plannedTask)]
         \<and> fst (append_message_plan okContext draftTask \<lparr>calls = [], persistent = ()\<rparr>)
             = (case finishTask okContext (TaskState plannedTask) of
                        Inl e \<Rightarrow> Threw e | Inr u \<Rightarrow> Returned ())
         \<and> plannedTask ''resources'' = Some (Arr [])
         \<and> plannedTask ''exclusiveResources'' = Some (Arr [])
         \<and> plannedTask ''priorityTags'' = Some (Arr [])
         \<and> (\<forall>f. f \<notin> {''resources'', ''exclusiveResources'', ''priorityTags''} \<longrightarrow>
                plannedTask f = draftTask f)
         \<and> (\<forall>claimantId held. fst (tryAcquireAll (resourcesOf plannedTask) claimantId held))"
    using append_message_plan_frame [of okContext draftTask] by (simp only: Let_def)
  then obtain plannedTask where
    c: "calls (snd (append_message_plan okContext draftTask \<lparr>calls = [], persistent = ()\<rparr>))
           = [FinishTask (TaskState plannedTask)]"
    and r: "plannedTask ''resources'' = Some (Arr [])"
    and t: "plannedTask ''priorityTags'' = Some (Arr [])"
    and o: "\<forall>f. f \<notin> {''resources'', ''exclusiveResources'', ''priorityTags''} \<longrightarrow>
                plannedTask f = draftTask f"
    and g: "\<forall>claimantId held. fst (tryAcquireAll (resourcesOf plannedTask) claimantId held)"
    by (elim exE conjE)
  have n1: "''accountId'' \<notin> {''resources'', ''exclusiveResources'', ''priorityTags''}"
    by simp
  have n2: "''messageInfo'' \<notin> {''resources'', ''exclusiveResources'', ''priorityTags''}"
    by simp
  have a: "plannedTask ''accountId'' = Some (Str ''acct1'')"
    using o[rule_format, OF n1] by (simp add: draftTask_def)
  have m: "plannedTask ''messageInfo'' = None"
    using o[rule_format, OF n2] by (simp add: draftTask_def)
  have d: "draftTask ''priorityTags'' = Some (Arr [Str ''view:sent''])"
    by (simp add: draftTask_def)
  have g': "fst (tryAcquireAll (resourcesOf plannedTask) ''task1'' [Str ''folder:sent'' \<mapsto> ''task0''])"
    using g by blast
  show ?thesis
    using c r t a m d g' by (intro exI[of _ plannedTask] conjI)
qed

end
